theory Spec2Isabelle
  imports Main "HOL-Library.Char_ord" "HOL-Library.List_Lexorder" "HOL-Library.Product_Lexorder"
    "HOL-Library.Multiset"
begin

section \<open>Python strings\<close>

text \<open>
  The scraper works on Python \<open>str\<close> values. They are modelled as \<^typ>\<open>string\<close>, read as
  ASCII text: \<open>str.strip()\<close> removes the ASCII characters for which \<open>str.isspace()\<close>
  holds (codes 9 to 13 and 28 to 32) from both ends, \<open>str.upper()\<close> and \<open>str.lower()\<close>
  change the 26 letters and nothing else.
\<close>

definition isspace :: "char \<Rightarrow> bool" where
  "isspace c = (let n = (of_char c :: nat) in (9 \<le> n \<and> n \<le> 13) \<or> (28 \<le> n \<and> n \<le> 32))"

definition strip :: "string \<Rightarrow> string" where
  "strip s = rev (dropWhile isspace (rev (dropWhile isspace s)))"

definition upper_char :: "char \<Rightarrow> char" where
  "upper_char c =
     (let n = (of_char c :: nat) in if 97 \<le> n \<and> n \<le> 122 then char_of (n - 32) else c)"

definition lower_char :: "char \<Rightarrow> char" where
  "lower_char c =
     (let n = (of_char c :: nat) in if 65 \<le> n \<and> n \<le> 90 then char_of (n + 32) else c)"

definition upper :: "string \<Rightarrow> string" where
  "upper s = map upper_char s"

definition lower :: "string \<Rightarrow> string" where
  "lower s = map lower_char s"

text \<open>\<open>x in s\<close> on two strings: \<open>x\<close> occurs in \<open>s\<close> as a contiguous substring.\<close>

fun is_prefix :: "string \<Rightarrow> string \<Rightarrow> bool" where
  "is_prefix [] s = True"
| "is_prefix (a # x) [] = False"
| "is_prefix (a # x) (b # s) = (a = b \<and> is_prefix x s)"

fun str_contains :: "string \<Rightarrow> string \<Rightarrow> bool" where
  "str_contains x [] = (x = [])"
| "str_contains x (b # s) = (is_prefix x (b # s) \<or> str_contains x s)"


section \<open>Header normalizer\<close>

text \<open>The dictionary \<open>header_map\<close> of \<open>_normalize_headers\<close>, in the order it is written.\<close>

definition header_map :: "(string \<times> string) list" where
  "header_map =
   [(''BATTING AVG'', ''AVG''), (''BA'', ''AVG''),
    (''RUNS BATTED IN'', ''RBI''), (''RBI'', ''RBI''),
    (''RUNS SCORED'', ''R''), (''R'', ''R''),
    (''AT BATS'', ''AB''), (''AB'', ''AB''),
    (''HITS'', ''H''), (''H'', ''H''),
    (''DOUBLES'', ''2B''), (''2B'', ''2B''),
    (''TRIPLES'', ''3B''), (''3B'', ''3B''),
    (''HOME RUNS'', ''HR''), (''HR'', ''HR''),
    (''WALKS'', ''BB''), (''BB'', ''BB''),
    (''STRIKEOUTS'', ''K''), (''K'', ''K''),
    (''OPPONENT AVG'', ''OBA''), (''OPP BA'', ''OBA''), (''OPP AVG'', ''OBA''),
    (''ON BASE %'', ''OBP''), (''ON BASE PCT'', ''OBP''),
    (''WILD PITCHES'', ''WP''),
    (''HIT BATTERS'', ''HBP''),
    (''SACRIFICE FLIES'', ''SF''),
    (''SACRIFICE HITS'', ''SH/B''),
    (''PITCH COUNT'', ''#P''), (''PITCHES'', ''#P''),
    (''BALKS'', ''BK''),
    (''PICKOFFS'', ''PO''),
    (''STOLEN BASES AGAINST'', ''SB''),
    (''EARNED RUN AVERAGE'', ''ERA''),
    (''INNINGS PITCHED'', ''IP''),
    (''FIELDING PERCENTAGE'', ''FLD%''),
    (''PUTOUTS'', ''PO''),
    (''ASSISTS'', ''A''),
    (''ERRORS'', ''E''),
    (''DOUBLE PLAYS'', ''DP''),
    (''STOLEN BASES'', ''SB''),
    (''CAUGHT STEALING'', ''CS''),
    (''GAMES PLAYED'', ''GP''),
    (''GAMES STARTED'', ''GS''),
    (''APPEARANCES'', ''APP'')]"

text \<open>One turn of the loop of \<open>_normalize_headers\<close>:
  \<open>header = header.strip().upper()\<close>, then \<open>header_map.get(header, header)\<close>.\<close>

definition normalize_header :: "string \<Rightarrow> string" where
  "normalize_header header =
     (let header' = upper (strip header)
      in case map_of header_map header' of Some v \<Rightarrow> v | None \<Rightarrow> header')"

definition normalize_headers :: "string list \<Rightarrow> string list" where
  "normalize_headers headers = map normalize_header headers"


section \<open>Table classifier\<close>

datatype category = Batting | Pitching | Fielding | Baserunning

definition pitching_basic :: "string set" where
  "pitching_basic = {''ERA'', ''W'', ''L'', ''W%'', ''APP''}"

definition pitching_advanced :: "string set" where
  "pitching_advanced = {''IP'', ''H'', ''R'', ''ER'', ''BB'', ''SO''}"

definition pitching_additional :: "string set" where
  "pitching_additional = {''OBA'', ''WP'', ''HBP'', ''BK''}"

definition batting_required :: "string set" where
  "batting_required = {''AVG'', ''AB'', ''H'', ''R'', ''RBI''}"

definition batting_additional :: "string set" where
  "batting_additional =
     {''2B'', ''3B'', ''HR'', ''BB'', ''K'', ''HBP'', ''SF'', ''SH'', ''ROE'', ''FC'', ''LOB'',
      ''OBP'', ''SLG'', ''OPS''}"

definition fielding_required :: "string set" where
  "fielding_required = {''FPCT'', ''TC'', ''FLD%''}"

definition fielding_additional :: "string set" where
  "fielding_additional = {''PO'', ''A'', ''E'', ''DP''}"

definition baserunning_required :: "string set" where
  "baserunning_required = {''SB'', ''CS'', ''SBA''}"

text \<open>
  \<open>_determine_table_type\<close> on the column labels of a frame (the \<open>DataFrame\<close> branch, the one
  the merger calls): \<open>headers = [col.strip().upper() for col in columns]\<close>, no headers is no
  type, then the four tests in the order of the source. \<open>len(A & headers_set)\<close> is
  \<^term>\<open>card (A \<inter> headers_set)\<close>; \<open>any(req in headers for req in A)\<close> is
  \<^term>\<open>\<exists>req\<in>A. req \<in> set headers\<close>.
\<close>

definition determine_table_type :: "string list \<Rightarrow> category option" where
  "determine_table_type cols =
     (let headers = map (\<lambda>col. upper (strip col)) cols in
      if headers = [] then None
      else
        let headers_set = set headers in
        if 3 \<le> card (pitching_basic \<inter> headers_set) \<or>
           3 \<le> card (pitching_advanced \<inter> headers_set) \<or>
           2 \<le> card (pitching_additional \<inter> headers_set)
        then Some Pitching
        else if (\<exists>req\<in>fielding_required. req \<in> set headers) \<and>
                (\<exists>add\<in>fielding_additional. add \<in> set headers)
        then Some Fielding
        else if (\<exists>req\<in>baserunning_required. req \<in> set headers)
        then Some Baserunning
        else if 2 \<le> card (batting_required \<inter> headers_set) \<or>
                2 \<le> card (batting_additional \<inter> headers_set)
        then Some Batting
        else None)"


section \<open>Data frames\<close>

text \<open>
  The part of pandas the scraper uses. A frame is its column labels and its rows; a cell is
  a text or missing (\<open>None\<close>/\<open>NaN\<close>, here \<^term>\<open>None\<close>). Labels may repeat, as in pandas.
  A frame built by pandas has as many cells in every row as it has columns (\<open>wf_frame\<close>).
\<close>

type_synonym cell = "string option"

record DataFrame =
  columns :: "string list"
  rows :: "cell list list"

datatype error =
  KeyError string | ValueError string | MergeError string | HTTPError string |
  RequestException string | OSError string

text \<open>The text an error is reported with (\<open>str(e)\<close>); the library's wording is not modelled,
  only the label or reason the error carries.\<close>

fun str_error :: "error \<Rightarrow> string" where
  "str_error (KeyError s) = s"
| "str_error (ValueError s) = s"
| "str_error (MergeError s) = s"
| "str_error (HTTPError s) = s"
| "str_error (RequestException s) = s"
| "str_error (OSError s) = s"

definition wf_frame :: "DataFrame \<Rightarrow> bool" where
  "wf_frame df = list_all (\<lambda>r. length r = length (columns df)) (rows df)"

text \<open>\<open>pd.DataFrame()\<close>.\<close>

definition empty_frame :: DataFrame where
  "empty_frame = \<lparr>columns = [], rows = []\<rparr>"

text \<open>\<open>df.empty\<close>: one of the two axes has length 0.\<close>

definition df_empty :: "DataFrame \<Rightarrow> bool" where
  "df_empty df = (columns df = [] \<or> rows df = [])"

definition pad_row :: "nat \<Rightarrow> string list \<Rightarrow> cell list" where
  "pad_row n r = map Some r @ replicate (n - length r) None"

text \<open>
  \<open>pd.DataFrame(data, columns=headers)\<close> on a non-empty list of lists: the rows are laid out
  in an array as wide as the longest row, shorter rows filled with missing cells, and the
  number of labels must be that width (\<open>ValueError\<close> otherwise).
\<close>

definition new_frame :: "string list list \<Rightarrow> string list \<Rightarrow> error + DataFrame" where
  "new_frame data headers =
     (let width = foldr (\<lambda>r w. max (length r) w) data 0 in
      if length headers \<noteq> width then Inl (ValueError ''columns passed'')
      else Inr \<lparr>columns = headers, rows = map (pad_row width) data\<rparr>)"

text \<open>The positions of a label among the column labels.\<close>

definition positions :: "string \<Rightarrow> string list \<Rightarrow> nat list" where
  "positions l cols = filter (\<lambda>i. cols ! i = l) [0..<length cols]"

text \<open>
  \<open>df[labels]\<close> with a list of labels: \<open>KeyError\<close> when a label is no column, else the
  columns carrying each label, in the order of the list.
\<close>

definition df_getitem :: "DataFrame \<Rightarrow> string list \<Rightarrow> error + DataFrame" where
  "df_getitem df labels =
     (case filter (\<lambda>l. l \<notin> set (columns df)) labels of
        l # _ \<Rightarrow> Inl (KeyError l)
      | [] \<Rightarrow>
          let idx = concat (map (\<lambda>l. positions l (columns df)) labels)
          in Inr \<lparr>columns = map (\<lambda>i. columns df ! i) idx,
                  rows = map (\<lambda>r. map (\<lambda>i. r ! i) idx) (rows df)\<rparr>)"

text \<open>
  \<open>df[label] = value\<close> with a scalar: every column carrying the label is set to the value
  in every row; a new label is appended as the last column.
\<close>

definition df_setitem :: "DataFrame \<Rightarrow> string \<Rightarrow> string \<Rightarrow> DataFrame" where
  "df_setitem df label v =
     (if label \<in> set (columns df)
      then df\<lparr>rows := map (\<lambda>r. map (\<lambda>(c, x). if c = label then Some v else x)
                                   (zip (columns df) r)) (rows df)\<rparr>
      else \<lparr>columns = columns df @ [label], rows = map (\<lambda>r. r @ [Some v]) (rows df)\<rparr>)"

subsection \<open>The outer join\<close>

text \<open>A join key of \<open>pd.merge\<close> must be a column of the frame (\<open>KeyError\<close>) and label one
  column only (\<open>ValueError\<close>).\<close>

definition check_key :: "string list \<Rightarrow> string \<Rightarrow> error option" where
  "check_key cols k =
     (case positions k cols of
        [] \<Rightarrow> Some (KeyError k)
      | [i] \<Rightarrow> None
      | i # j # _ \<Rightarrow> Some (ValueError k))"

text \<open>\<open>pd.merge\<close> takes the keys one after the other and looks each one up in the right
  frame, then in the left frame; the first failure is the error raised.\<close>

definition key_errors :: "string list \<Rightarrow> string list \<Rightarrow> string list \<Rightarrow> error list" where
  "key_errors lcols rcols on =
     concat (map (\<lambda>k. (case check_key rcols k of None \<Rightarrow> [] | Some e \<Rightarrow> [e]) @
                       (case check_key lcols k of None \<Rightarrow> [] | Some e \<Rightarrow> [e])) on)"

text \<open>The cells of a row under the join keys.\<close>

definition key_of :: "string list \<Rightarrow> string list \<Rightarrow> cell list \<Rightarrow> cell list" where
  "key_of cols on r = map (\<lambda>k. r ! hd (positions k cols)) on"

text \<open>
  Labels that both sides carry outside the keys get the suffixes \<open>_x\<close> and \<open>_y\<close>; a label
  that a suffix makes collide with another one is a \<open>MergeError\<close>.
\<close>

definition suffix_dups :: "string list \<Rightarrow> string list \<Rightarrow> bool" where
  "suffix_dups orig new =
     list_ex (\<lambda>i. new ! i \<in> set (take i new) \<and> orig ! i \<notin> set (take i orig)) [0..<length new]"

definition merge_labels :: "string list \<Rightarrow> string list \<Rightarrow> error + (string list \<times> string list)" where
  "merge_labels lcols rcols =
     (let llabels = map (\<lambda>x. if x \<in> set rcols then x @ ''_x'' else x) lcols;
          rlabels = map (\<lambda>x. if x \<in> set lcols then x @ ''_y'' else x) rcols
      in if suffix_dups lcols llabels \<or> suffix_dups rcols rlabels
         then Inl (MergeError ''duplicate columns'')
         else Inr (llabels, rlabels))"

text \<open>Missing keys sort after every text.\<close>

definition sort_cell :: "cell \<Rightarrow> bool \<times> string" where
  "sort_cell c = (case c of None \<Rightarrow> (True, []) | Some s \<Rightarrow> (False, s))"

text \<open>The positions of the columns of the right frame that are no join keys.\<close>

definition value_positions :: "string list \<Rightarrow> string list \<Rightarrow> nat list" where
  "value_positions rcols on = filter (\<lambda>i. rcols ! i \<notin> set on) [0..<length rcols]"

text \<open>
  The rows a left row gives: one row with each right row of the same key, or, when there is
  none, one row with missing cells for the right columns.
\<close>

definition left_rows ::
  "string list \<Rightarrow> string list \<Rightarrow> string list \<Rightarrow> cell list list \<Rightarrow> cell list \<Rightarrow> cell list list" where
  "left_rows lcols rcols on rrows l =
     (case filter (\<lambda>r. key_of rcols on r = key_of lcols on l) rrows of
        [] \<Rightarrow> [l @ replicate (length (value_positions rcols on)) None]
      | ms \<Rightarrow> map (\<lambda>r. l @ map (\<lambda>i. r ! i) (value_positions rcols on)) ms)"

text \<open>
  The row a right row with no partner gives: its keys under the key columns of the left
  frame, missing cells under the other left columns, then its own cells outside the keys.
\<close>

definition right_row :: "string list \<Rightarrow> string list \<Rightarrow> string list \<Rightarrow> cell list \<Rightarrow> cell list" where
  "right_row lcols rcols on r =
     map (\<lambda>c. if c \<in> set on then r ! hd (positions c rcols) else None) lcols @
     map (\<lambda>i. r ! i) (value_positions rcols on)"

definition outer_rows ::
  "string list \<Rightarrow> string list \<Rightarrow> string list \<Rightarrow> cell list list \<Rightarrow> cell list list \<Rightarrow>
   cell list list" where
  "outer_rows lcols rcols on lrows rrows =
     sort_key (\<lambda>x. map sort_cell (key_of lcols on x))
       (concat (map (left_rows lcols rcols on rrows) lrows) @
        map (right_row lcols rcols on)
          (filter (\<lambda>r. key_of rcols on r \<notin> key_of lcols on ` set lrows) rrows))"

text \<open>
  \<open>pd.merge(left, right, on=on, how='outer')\<close>. The result has the columns of \<open>left\<close>, then
  the columns of \<open>right\<close> that are no keys. Every pair of a left and a right row with equal
  keys gives a row; a left row with no partner is filled with missing cells on the right,
  a right row with no partner is filled with missing cells on the left but for its keys.
  The rows come sorted by their keys.
\<close>

definition pd_merge :: "DataFrame \<Rightarrow> DataFrame \<Rightarrow> string list \<Rightarrow> error + DataFrame" where
  "pd_merge left right on =
     (case key_errors (columns left) (columns right) on of
        e # _ \<Rightarrow> Inl e
      | [] \<Rightarrow>
          (case merge_labels (columns left)
                  (map (\<lambda>i. columns right ! i) (value_positions (columns right) on)) of
             Inl e \<Rightarrow> Inl e
           | Inr (llabels, rlabels) \<Rightarrow>
               Inr \<lparr>columns = llabels @ rlabels,
                    rows = outer_rows (columns left) (columns right) on
                             (rows left) (rows right)\<rparr>))"


section \<open>Category merger\<close>

definition key_columns :: "string list" where
  "key_columns = [''#'', ''ATHLETE NAME'']"

text \<open>
  The first loop of \<open>_merge_tables_by_type\<close>: a frame that is not empty and has a type gets
  its labels trimmed and uppercased (\<open>df.columns = [col.strip().upper() for col in
  df.columns]\<close>) and joins the group of its type.
\<close>

definition rename_columns :: "DataFrame \<Rightarrow> DataFrame" where
  "rename_columns df = df\<lparr>columns := map (\<lambda>col. upper (strip col)) (columns df)\<rparr>"

definition table_groups :: "DataFrame list \<Rightarrow> category \<Rightarrow> DataFrame list" where
  "table_groups tables table_type =
     map rename_columns
       (filter (\<lambda>df. \<not> df_empty df \<and> determine_table_type (columns df) = Some table_type)
          tables)"

text \<open>The loop over \<open>dfs[1:]\<close>, \<open>merged_df\<close> being the accumulated result.\<close>

fun merge_loop :: "DataFrame \<Rightarrow> DataFrame list \<Rightarrow> error + DataFrame" where
  "merge_loop merged_df [] = Inr merged_df"
| "merge_loop merged_df (df # dfs) =
     (let right_columns = filter (\<lambda>col. col \<notin> set key_columns) (columns df) in
      if right_columns \<noteq> [] then
        (case df_getitem df (key_columns @ right_columns) of
           Inl e \<Rightarrow> Inl e
         | Inr right \<Rightarrow>
             (case pd_merge merged_df right key_columns of
                Inl e \<Rightarrow> Inl e
              | Inr merged_df' \<Rightarrow> merge_loop merged_df' dfs))
      else merge_loop merged_df dfs)"

text \<open>The three assignments that add the team information.\<close>

definition add_team_info :: "DataFrame \<Rightarrow> string \<Rightarrow> string \<Rightarrow> string \<Rightarrow> DataFrame" where
  "add_team_info merged_df team_name team_url city_state =
     df_setitem
       (df_setitem (df_setitem merged_df ''TEAM'' team_name) ''CITY_STATE'' city_state)
       ''STATS_URL'' team_url"

text \<open>The body of the second loop for one group that is not empty.\<close>

definition merge_group ::
  "DataFrame list \<Rightarrow> string \<Rightarrow> string \<Rightarrow> string \<Rightarrow> error + DataFrame" where
  "merge_group dfs team_name team_url city_state =
     (case merge_loop (hd dfs) (tl dfs) of
        Inl e \<Rightarrow> Inl e
      | Inr merged_df \<Rightarrow> Inr (add_team_info merged_df team_name team_url city_state))"

text \<open>
  The second loop, over the groups in the order of the dictionary \<open>table_groups\<close>; an empty
  group is skipped, an error in one group leaves the function (no table is returned).
\<close>

fun merge_groups ::
  "(category \<times> DataFrame list) list \<Rightarrow> string \<Rightarrow> string \<Rightarrow> string \<Rightarrow>
   error + (category \<times> DataFrame) list" where
  "merge_groups [] team_name team_url city_state = Inr []"
| "merge_groups ((table_type, dfs) # groups) team_name team_url city_state =
     (if dfs = [] then merge_groups groups team_name team_url city_state
      else
        (case merge_group dfs team_name team_url city_state of
           Inl e \<Rightarrow> Inl e
         | Inr merged_df \<Rightarrow>
             (case merge_groups groups team_name team_url city_state of
                Inl e \<Rightarrow> Inl e
              | Inr merged_tables \<Rightarrow> Inr ((table_type, merged_df) # merged_tables))))"

definition merge_tables_by_type ::
  "DataFrame list \<Rightarrow> string \<Rightarrow> string \<Rightarrow> string \<Rightarrow> error + (category \<times> DataFrame) list" where
  "merge_tables_by_type tables team_name team_url city_state =
     merge_groups
       (map (\<lambda>table_type. (table_type, table_groups tables table_type))
          [Batting, Pitching, Fielding, Baserunning])
       team_name team_url city_state"


section \<open>Row extraction\<close>

text \<open>
  A table of the page as \<open>_extract_table_data\<close> reads it: its \<open>tr\<close> rows in document order,
  each the texts of its \<open>td\<close>/\<open>th\<close> cells (\<open>get_text(strip=True)\<close>).
\<close>

type_synonym html_table = "string list list"

text \<open>The test on a data row: not empty, more than one cell, and neither \<open>season\<close> nor
  \<open>totals\<close> in the lowercased second cell.\<close>

definition keep_row :: "string list \<Rightarrow> bool" where
  "keep_row row_data =
     (row_data \<noteq> [] \<and> 1 < length row_data \<and>
      \<not> list_ex (\<lambda>x. str_contains x (lower (row_data ! 1))) [''season'', ''totals''])"

definition extract_table_data :: "html_table \<Rightarrow> DataFrame" where
  "extract_table_data table =
     (let headers = (case table of [] \<Rightarrow> [] | header_row # _ \<Rightarrow> header_row);
          data = filter keep_row (tl table)
      in if headers \<noteq> [] \<and> data \<noteq> [] then
           (case new_frame data headers of Inr df \<Rightarrow> df | Inl e \<Rightarrow> empty_frame)
         else empty_frame)"


section \<open>Per-team orchestration\<close>

record team_info =
  school :: string
  stats_url :: string
  city_state :: string

text \<open>\<open>os.path.join\<close> of two parts and \<open>os.path.dirname\<close>, as on POSIX.\<close>

definition path_join :: "string \<Rightarrow> string \<Rightarrow> string" where
  "path_join a b =
     (if b \<noteq> [] \<and> hd b = CHR ''/'' then b
      else if a = [] \<or> last a = CHR ''/'' then a @ b
      else a @ ''/'' @ b)"

definition dirname :: "string \<Rightarrow> string" where
  "dirname p =
     (let head = rev (dropWhile (\<lambda>c. c \<noteq> CHR ''/'') (rev p)) in
      if list_all (\<lambda>c. c = CHR ''/'') head then head
      else rev (dropWhile (\<lambda>c. c = CHR ''/'') (rev head)))"

definition teams_dir :: string where
  "teams_dir = ''teams''"

text \<open>
  The file the page of a team is saved to:
  \<open>os.path.join(os.path.join(self.teams_dir, self.state_abbr.upper()),
  f"{team_name.replace(' ', '_')}.html")\<close>.
\<close>

definition html_file :: "string \<Rightarrow> string \<Rightarrow> string" where
  "html_file state_abbr team_name =
     path_join (path_join teams_dir (upper state_abbr))
       (map (\<lambda>c. if c = CHR '' '' then CHR ''_'' else c) team_name @ ''.html'')"

text \<open>
  What \<open>process_team\<close> gets from outside: the print URL found by \<open>_get_print_url\<close> (or
  none); what \<open>requests.get\<close> on it gives, an exception or a response with its status code
  and the tables of its text; and what opening a path for writing and writing the page
  there gives, nothing or the exception raised.
\<close>

record http_response =
  status_code :: nat
  tables :: "html_table list"

record environment =
  print_url :: "string option"
  get_page :: "error + http_response"
  write_file :: "string \<Rightarrow> error option"

text \<open>
  A file system known by its directories: a file is opened for writing when its directory
  is one of them, and \<open>FileNotFoundError\<close> (an \<open>OSError\<close>, errno 2) is raised otherwise.
  \<open>process_state_teams\<close> makes the directories \<open>teams\<close> and \<open>teams/<STATE>\<close>.
\<close>

definition open_in :: "string list \<Rightarrow> string \<Rightarrow> error option" where
  "open_in dirs path =
     (if dirname path \<in> set dirs then None
      else Some (OSError (''[Errno 2] No such file or directory: '' @
                          [CHR 0x27] @ path @ [CHR 0x27])))"

text \<open>
  What \<open>process_team\<close> writes: the lines appended to the file of teams without statistics,
  and the merged tables appended to the files of their categories.
\<close>

record sinks =
  teams_without_stats :: "string list"
  outputs :: "(category \<times> DataFrame) list"

fun str_nat :: "nat \<Rightarrow> string" where
  "str_nat n =
     (if n < 10 then [char_of (48 + n)] else str_nat (n div 10) @ [char_of (48 + n mod 10)])"

declare str_nat.simps [simp del]

text \<open>\<open>_save_team_without_stats\<close>: one line
  \<open>f'{team_name},{stats_url},{reason},{tables_found}\n'\<close>.\<close>

definition save_team_without_stats :: "sinks \<Rightarrow> string \<Rightarrow> string \<Rightarrow> string \<Rightarrow> nat \<Rightarrow> sinks" where
  "save_team_without_stats s team_name team_url reason tables_found =
     s\<lparr>teams_without_stats := teams_without_stats s @
         [team_name @ '','' @ team_url @ '','' @ reason @ '','' @ str_nat tables_found @
          [CHR 0x0A]]\<rparr>"

text \<open>
  \<open>process_team\<close> for the state \<open>state_abbr\<close>. The steps are those of the source, in its
  order: the print URL, the request, the status 404, \<open>raise_for_status\<close> (which raises on
  the codes 400 to 599), the page written to its file, the tables counted, then extraction
  and merge. Every exception ends in the \<open>except\<close> branch, which records the error with the
  count 0. The two sinks are taken to accept every append.
\<close>

definition process_team :: "string \<Rightarrow> sinks \<Rightarrow> team_info \<Rightarrow> environment \<Rightarrow> sinks" where
  "process_team state_abbr s info env =
     (let team_name = school info; team_url = stats_url info in
      if print_url env = None then
        save_team_without_stats s team_name team_url ''No print URL found'' 0
      else
        (case get_page env of
           Inl e \<Rightarrow>
             save_team_without_stats s team_name team_url (''Error: '' @ str_error e) 0
         | Inr response \<Rightarrow>
             if status_code response = 404 then
               save_team_without_stats s team_name team_url ''404 Error'' 0
             else if 400 \<le> status_code response \<and> status_code response < 600 then
               save_team_without_stats s team_name team_url
                 (''Error: '' @ str_error (HTTPError (str_nat (status_code response)))) 0
             else
               (case write_file env (html_file state_abbr team_name) of
                  Some e \<Rightarrow>
                    save_team_without_stats s team_name team_url
                      (''Error: '' @ str_error e) 0
                | None \<Rightarrow>
                    if tables response = [] then
                      save_team_without_stats s team_name team_url ''No tables found'' 0
                    else if length (tables response) < 7 then
                      save_team_without_stats s team_name team_url ''Insufficient tables''
                        (length (tables response))
                    else
                      let table_dfs = filter (\<lambda>df. \<not> df_empty df)
                                        (map extract_table_data (tables response))
                      in case merge_tables_by_type table_dfs team_name team_url
                                (city_state info) of
                           Inl e \<Rightarrow>
                             save_team_without_stats s team_name team_url
                               (''Error: '' @ str_error e) 0
                         | Inr merged_tables \<Rightarrow>
                             s\<lparr>outputs := outputs s @ merged_tables\<rparr>)))"


text \<open>The cells of a row under a label (several when the label repeats).\<close>

definition row_cells :: "DataFrame \<Rightarrow> cell list \<Rightarrow> string \<Rightarrow> cell list" where
  "row_cells df r label = map (\<lambda>i. r ! i) (positions label (columns df))"


text \<open>No label outside the join key occurs in two frames of the list.\<close>

fun labels_disjoint :: "DataFrame list \<Rightarrow> bool" where
  "labels_disjoint [] = True"
| "labels_disjoint (df # dfs) =
     ((\<forall>g\<in>set dfs. set (columns df) \<inter> set (columns g) \<subseteq> set key_columns) \<and>
      labels_disjoint dfs)"


section \<open>The classifier in the words of the specification\<close>

text \<open>
  The specification describes the classifier as an ordered list of (category, predicate)
  pairs over the set of present headers, the first pair whose predicate holds giving the
  category. These definitions follow its words; they are compared with
  \<^const>\<open>determine_table_type\<close> below.
\<close>

definition present_headers :: "string list \<Rightarrow> string set" where
  "present_headers hs = set (map (\<lambda>h. upper (strip h)) hs)"

definition at_least :: "nat \<Rightarrow> string set \<Rightarrow> string set \<Rightarrow> bool" where
  "at_least n A present = (n \<le> card (A \<inter> present))"

definition spec_pitching :: "string set \<Rightarrow> bool" where
  "spec_pitching present =
     (at_least 3 {''ERA'', ''W'', ''L'', ''W%'', ''APP''} present \<or>
      at_least 3 {''IP'', ''H'', ''R'', ''ER'', ''BB'', ''SO''} present \<or>
      at_least 2 {''OBA'', ''WP'', ''HBP'', ''BK''} present)"

definition spec_fielding :: "string set \<Rightarrow> bool" where
  "spec_fielding present =
     (at_least 1 {''FPCT'', ''TC'', ''FLD%''} present \<and>
      at_least 1 {''PO'', ''A'', ''E'', ''DP''} present)"

definition spec_baserunning :: "string set \<Rightarrow> bool" where
  "spec_baserunning present = at_least 1 {''SB'', ''CS'', ''SBA''} present"

definition spec_batting :: "string set \<Rightarrow> bool" where
  "spec_batting present =
     (at_least 2 {''AVG'', ''AB'', ''H'', ''R'', ''RBI''} present \<or>
      at_least 2 {''2B'', ''3B'', ''HR'', ''BB'', ''K'', ''HBP'', ''SF'', ''SH'', ''ROE'', ''FC'',
                  ''LOB'', ''OBP'', ''SLG'', ''OPS''} present)"

definition spec_rules :: "(category \<times> (string set \<Rightarrow> bool)) list" where
  "spec_rules =
     [(Pitching, spec_pitching), (Fielding, spec_fielding),
      (Baserunning, spec_baserunning), (Batting, spec_batting)]"

definition spec_classify :: "string set \<Rightarrow> category option" where
  "spec_classify present = map_option fst (List.find (\<lambda>(c, p). p present) spec_rules)"


section \<open>Properties of the header normalizer\<close>

lemma upper_char_idem: "upper_char (upper_char c) = upper_char c"
  unfolding upper_char_def Let_def by (auto simp: of_char_of)

lemma isspace_upper_char: "isspace (upper_char c) = isspace c"
  unfolding upper_char_def isspace_def Let_def by (auto simp: of_char_of)

lemma strip_upper: "strip (upper s) = upper (strip s)"
  unfolding strip_def upper_def
  by (simp add: dropWhile_map rev_map comp_def isspace_upper_char)

lemma strip_idem: "strip (strip s) = strip s"
proof -
  define t where "t = dropWhile isspace s"
  define w where "w = dropWhile isspace (rev t)"
  have s: "strip s = rev w" by (simp add: strip_def t_def w_def)
  have "dropWhile isspace (rev w) = rev w"
  proof (cases "w = []")
    case True
    then show ?thesis by simp
  next
    case False
    have "rev t = takeWhile isspace (rev t) @ w" by (simp add: w_def)
    then have "t = rev w @ rev (takeWhile isspace (rev t))"
      by (metis rev_append rev_rev_ident)
    with False have "hd (rev w) = hd t" and "t \<noteq> []"
      by (metis hd_append2 rev_is_Nil_conv, auto)
    moreover have "\<not> isspace (hd t)"
      using \<open>t \<noteq> []\<close> unfolding t_def by (rule hd_dropWhile)
    ultimately show ?thesis by (simp add: dropWhile_eq_self_iff)
  qed
  then have "strip (rev w) = rev (dropWhile isspace w)" by (simp add: strip_def)
  also have "\<dots> = rev w" by (simp add: w_def)
  finally show ?thesis by (simp add: s)
qed

lemma upper_idem: "upper (upper s) = upper s"
  by (simp add: upper_def upper_char_idem)

lemma upper_strip_idem: "upper (strip (upper (strip s))) = upper (strip s)"
  by (simp add: strip_upper strip_idem upper_idem)

text \<open>Every value of the synonym table is kept by the normalizer.\<close>

lemma header_map_values_fixed: "\<forall>(k, v)\<in>set header_map. normalize_header v = v"
  by code_simp

lemma normalize_header_idem: "normalize_header (normalize_header h) = normalize_header h"
proof (cases "map_of header_map (upper (strip h))")
  case None
  then show ?thesis by (simp add: normalize_header_def upper_strip_idem)
next
  case (Some v)
  then have "(upper (strip h), v) \<in> set header_map" by (rule map_of_SomeD)
  with header_map_values_fixed have "normalize_header v = v" by blast
  moreover from Some have "normalize_header h = v" by (simp add: normalize_header_def)
  ultimately show ?thesis by simp
qed

text \<open>
  C5: header normalization is idempotent, on one header and on a list of headers, and a
  canonical header (a value of the synonym table) is returned unchanged.
\<close>

theorem normalize_headers_idempotent:
  "normalize_headers (normalize_headers hs) = normalize_headers hs \<and>
   normalize_header (normalize_header h) = normalize_header h \<and>
   (v \<in> snd ` set header_map \<longrightarrow> normalize_header v = v)"
proof -
  have "v \<in> snd ` set header_map \<longrightarrow> normalize_header v = v"
    using header_map_values_fixed by force
  then show ?thesis by (simp add: normalize_headers_def normalize_header_idem)
qed

theorem normalize_headers_idempotent_witness:
  "normalize_headers (normalize_headers ['' batting avg '', ''ba'', ''Name'']) =
     [''AVG'', ''AVG'', ''NAME''] \<and>
   normalize_header (normalize_header ''Opp BA'') = ''OBA'' \<and>
   normalize_header ''AVG'' = ''AVG''"
proof -
  have 1: "normalize_headers ['' batting avg '', ''ba'', ''Name''] = [''AVG'', ''AVG'', ''NAME'']"
    by code_simp
  have 2: "normalize_header ''Opp BA'' = ''OBA''" by code_simp
  have 3: "''AVG'' \<in> snd ` set header_map" by code_simp
  from normalize_headers_idempotent
    [of "['' batting avg '', ''ba'', ''Name'']" "''Opp BA''" "''AVG''"] 1 2 3
  show ?thesis by simp
qed


section \<open>Properties of the table classifier\<close>

lemma any_in_iff_card: "finite A \<Longrightarrow> (\<exists>x\<in>A. x \<in> H) = (1 \<le> card (A \<inter> H))"
proof -
  assume "finite A"
  then have "finite (A \<inter> H)" by simp
  then have "(card (A \<inter> H) = 0) = (A \<inter> H = {})" by (rule card_0_eq)
  then show ?thesis by (auto simp: Suc_le_eq card_gt_0_iff)
qed

lemma indicator_sets_finite:
  "finite fielding_required" "finite fielding_additional" "finite baserunning_required"
  by (simp_all add: fielding_required_def fielding_additional_def baserunning_required_def)

text \<open>The classifier reads its argument through the set of present headers only.\<close>

lemma determine_table_type_cards:
  "determine_table_type hs =
     (let P = present_headers hs in
      if 3 \<le> card (pitching_basic \<inter> P) \<or> 3 \<le> card (pitching_advanced \<inter> P) \<or>
         2 \<le> card (pitching_additional \<inter> P) then Some Pitching
      else if 1 \<le> card (fielding_required \<inter> P) \<and> 1 \<le> card (fielding_additional \<inter> P)
        then Some Fielding
      else if 1 \<le> card (baserunning_required \<inter> P) then Some Baserunning
      else if 2 \<le> card (batting_required \<inter> P) \<or> 2 \<le> card (batting_additional \<inter> P)
        then Some Batting
      else None)"
proof (cases "hs = []")
  case True
  then show ?thesis
    by (simp add: determine_table_type_def present_headers_def)
next
  case False
  then show ?thesis
    unfolding determine_table_type_def present_headers_def Let_def
    by (simp only: any_in_iff_card[OF indicator_sets_finite(1)]
        any_in_iff_card[OF indicator_sets_finite(2)]
        any_in_iff_card[OF indicator_sets_finite(3)] map_is_Nil_conv if_False)
qed

lemma determine_table_type_set:
  assumes "set hs = set hs'"
  shows "determine_table_type hs = determine_table_type hs'"
proof -
  from assms have "present_headers hs = present_headers hs'"
    by (simp add: present_headers_def)
  then show ?thesis by (simp add: determine_table_type_cards)
qed

text \<open>
  C1: on every list of headers the classifier returns what the ordered rule list of the
  specification returns on the set of present (trimmed, uppercased) headers: the first of
  pitching, fielding, baserunning, batting whose predicate holds, and no match if none
  does. The headers ERA, W, L, IP, H, R, ER, BB, SO are pitching, not batting.
\<close>

theorem determine_table_type_refines_spec:
  "determine_table_type hs = spec_classify (present_headers hs) \<and>
   determine_table_type [''ERA'', ''W'', ''L'', ''IP'', ''H'', ''R'', ''ER'', ''BB'', ''SO'']
     = Some Pitching \<and>
   determine_table_type [''ERA'', ''W'', ''L'', ''IP'', ''H'', ''R'', ''ER'', ''BB'', ''SO'']
     \<noteq> Some Batting"
proof -
  have "determine_table_type hs = spec_classify (present_headers hs)"
    unfolding determine_table_type_cards
    by (simp add: spec_classify_def spec_rules_def spec_pitching_def spec_fielding_def
        spec_baserunning_def spec_batting_def at_least_def Let_def
        fielding_required_def fielding_additional_def
        baserunning_required_def pitching_basic_def pitching_advanced_def
        pitching_additional_def batting_required_def batting_additional_def)
  moreover have
    "determine_table_type [''ERA'', ''W'', ''L'', ''IP'', ''H'', ''R'', ''ER'', ''BB'', ''SO'']
       = Some Pitching"
    by code_simp
  ultimately show ?thesis by simp
qed

theorem determine_table_type_refines_spec_witness:
  "determine_table_type ['' avg'', ''Ab'', ''SB''] = spec_classify {''AVG'', ''AB'', ''SB''} \<and>
   determine_table_type ['' avg'', ''Ab'', ''SB''] = Some Baserunning"
proof -
  have 1: "present_headers ['' avg'', ''Ab'', ''SB''] = {''AVG'', ''AB'', ''SB''}"
    by code_simp
  have 2: "determine_table_type ['' avg'', ''Ab'', ''SB''] = Some Baserunning"
    by code_simp
  from determine_table_type_refines_spec [of "['' avg'', ''Ab'', ''SB'']"] 1 2
  show ?thesis by simp
qed

text \<open>
  C4: the classification depends on the headers only through their set; in particular a
  permutation of the header sequence is classified as the sequence is.
\<close>

theorem determine_table_type_permutation:
  assumes "mset hs' = mset hs"
  shows "determine_table_type hs' = determine_table_type hs"
  using assms by (intro determine_table_type_set mset_eq_setD)

theorem determine_table_type_permutation_witness:
  "mset [''H'', ''IP'', ''R''] = mset [''R'', ''H'', ''IP''] \<and>
   determine_table_type [''H'', ''IP'', ''R''] = determine_table_type [''R'', ''H'', ''IP''] \<and>
   determine_table_type [''R'', ''H'', ''IP''] = Some Pitching"
proof -
  have h: "mset [''H'', ''IP'', ''R''] = mset [''R'', ''H'', ''IP'']" by simp
  have "determine_table_type [''R'', ''H'', ''IP''] = Some Pitching" by code_simp
  with h determine_table_type_permutation [OF h] show ?thesis by simp
qed


section \<open>Properties of row extraction\<close>

lemma new_frame_rows:
  assumes "new_frame data headers = Inr df"
  shows "columns df = headers \<and>
         rows df = map (pad_row (length headers)) data \<and>
         (\<forall>r\<in>set data. length r \<le> length headers)"
proof -
  define width where "width = foldr (\<lambda>r w. max (length r) w) data 0"
  have le: "\<forall>r\<in>set data. length r \<le> foldr (\<lambda>r w. max (length r) w) data 0"
    by (induction data) auto
  from assms have "length headers = width"
    and "df = \<lparr>columns = headers, rows = map (pad_row width) data\<rparr>"
    by (auto simp: new_frame_def width_def Let_def split: if_splits)
  with le show ?thesis by (simp add: width_def)
qed

lemma extract_table_data_rows:
  assumes "r \<in> set (rows (extract_table_data t))"
  shows "\<exists>row_data\<in>set (tl t). keep_row row_data \<and>
           length row_data \<le> length (columns (extract_table_data t)) \<and>
           r = pad_row (length (columns (extract_table_data t))) row_data"
proof -
  define headers where "headers = (case t of [] \<Rightarrow> [] | header_row # _ \<Rightarrow> header_row)"
  define data where "data = filter keep_row (tl t)"
  have e: "extract_table_data t =
      (if headers \<noteq> [] \<and> data \<noteq> [] then
         (case new_frame data headers of Inr df \<Rightarrow> df | Inl e \<Rightarrow> empty_frame)
       else empty_frame)"
    by (simp add: extract_table_data_def headers_def data_def)
  show ?thesis
  proof (cases "new_frame data headers")
    case (Inl e')
    with assms e show ?thesis by (simp add: empty_frame_def split: if_splits)
  next
    case (Inr df)
    show ?thesis
    proof (cases "headers \<noteq> [] \<and> data \<noteq> []")
      case True
      with e Inr have x: "extract_table_data t = df" by simp
      from new_frame_rows[OF Inr] assms x
      obtain row_data where "row_data \<in> set data" "r = pad_row (length headers) row_data"
        "length row_data \<le> length headers" "columns df = headers"
        by auto
      then show ?thesis using x by (auto simp: data_def)
    next
      case False
      with assms e show ?thesis by (auto simp add: empty_frame_def)
    qed
  qed
qed

text \<open>An extracted frame has as many cells in every row as it has columns.\<close>

lemma wf_extract_table_data: "wf_frame (extract_table_data t)"
proof -
  have "length r = length (columns (extract_table_data t))"
    if "r \<in> set (rows (extract_table_data t))" for r
  proof -
    from extract_table_data_rows[OF that] obtain row_data where
      "length row_data \<le> length (columns (extract_table_data t))"
      "r = pad_row (length (columns (extract_table_data t))) row_data"
      by blast
    then show ?thesis by (simp add: pad_row_def)
  qed
  then show ?thesis by (simp add: wf_frame_def list_all_iff)
qed

lemma pad_row_nth: "i < length row_data \<Longrightarrow> pad_row n row_data ! i = Some (row_data ! i)"
  by (simp add: pad_row_def nth_append)

lemma pad_row_short: "length row_data \<le> i \<Longrightarrow> i < length (pad_row n row_data) \<Longrightarrow> pad_row n row_data ! i = None"
  by (simp add: pad_row_def nth_append)

lemma extract_table_data_name_cell:
  assumes "r \<in> set (rows (extract_table_data t))"
  shows "\<exists>name. 1 < length r \<and> r ! 1 = Some name \<and>
           \<not> str_contains ''season'' (lower name) \<and> \<not> str_contains ''totals'' (lower name)"
proof -
  from extract_table_data_rows[OF assms] obtain row_data where
    k: "keep_row row_data" and r: "r = pad_row (length (columns (extract_table_data t))) row_data"
    by blast
  from k have "1 < length row_data" by (simp add: keep_row_def)
  with r have "r ! 1 = Some (row_data ! 1)" by (simp add: pad_row_nth)
  moreover from r \<open>1 < length row_data\<close> have "1 < length r" by (simp add: pad_row_def)
  ultimately show ?thesis using k by (simp add: keep_row_def)
qed

text \<open>
  C7, as the code has it: the test is on the second cell of a data row, which the code
  takes for the athlete name (its comment: usually second column); the header row is not
  consulted. No row of an extracted table has \<open>season\<close> or \<open>totals\<close> in its lowercased
  second cell; a data row whose second cell has one of them, as \<open>Team Totals\<close> or
  \<open>2024 Season\<close>, is not among the rows of the extracted table, whatever the table is.
\<close>

theorem summary_rows_excluded:
  "(r \<in> set (rows (extract_table_data t)) \<longrightarrow>
      (\<exists>name. r ! 1 = Some name \<and> \<not> str_contains ''season'' (lower name) \<and>
               \<not> str_contains ''totals'' (lower name))) \<and>
   (1 < length row_data \<and>
    (str_contains ''season'' (lower (row_data ! 1)) \<or>
     str_contains ''totals'' (lower (row_data ! 1))) \<longrightarrow>
      pad_row w row_data \<notin> set (rows (extract_table_data t)))"
proof (intro conjI impI)
  assume "r \<in> set (rows (extract_table_data t))"
  from extract_table_data_name_cell[OF this]
  show "\<exists>name. r ! 1 = Some name \<and> \<not> str_contains ''season'' (lower name) \<and>
               \<not> str_contains ''totals'' (lower name)" by blast
next
  assume a: "1 < length row_data \<and>
    (str_contains ''season'' (lower (row_data ! 1)) \<or>
     str_contains ''totals'' (lower (row_data ! 1)))"
  show "pad_row w row_data \<notin> set (rows (extract_table_data t))"
  proof
    assume "pad_row w row_data \<in> set (rows (extract_table_data t))"
    from extract_table_data_name_cell[OF this] a show False
      by (auto simp: pad_row_nth)
  qed
qed

theorem summary_rows_excluded_witness:
  "(\<exists>name. [Some ''2'', Some ''Bob'', Some ''.250'', Some ''8''] ! 1 = Some name \<and>
      \<not> str_contains ''season'' (lower name) \<and> \<not> str_contains ''totals'' (lower name)) \<and>
   pad_row 4 ['''', ''Team Totals'', ''.280'', ''25''] \<notin> set (rows (extract_table_data
     [[''#'', ''Athlete Name'', ''AVG'', ''AB''],
      [''1'', ''Ann'', ''.300'', ''10''], [''Pitching''], [],
      ['''', ''Team Totals'', ''.280'', ''25''], [''2'', ''Bob'', ''.250'', ''8''],
      ['''', ''2024 Season'', ''.280'', ''25'']])) \<and>
   extract_table_data
     [[''#'', ''Athlete Name'', ''AVG'', ''AB''],
      [''1'', ''Ann'', ''.300'', ''10''], [''Pitching''], [],
      ['''', ''Team Totals'', ''.280'', ''25''], [''2'', ''Bob'', ''.250'', ''8''],
      ['''', ''2024 Season'', ''.280'', ''25'']] =
     \<lparr>columns = [''#'', ''Athlete Name'', ''AVG'', ''AB''],
      rows = [[Some ''1'', Some ''Ann'', Some ''.300'', Some ''10''],
              [Some ''2'', Some ''Bob'', Some ''.250'', Some ''8'']]\<rparr>"
proof -
  let ?t = "[[''#'', ''Athlete Name'', ''AVG'', ''AB''],
      [''1'', ''Ann'', ''.300'', ''10''], [''Pitching''], [],
      ['''', ''Team Totals'', ''.280'', ''25''], [''2'', ''Bob'', ''.250'', ''8''],
      ['''', ''2024 Season'', ''.280'', ''25'']]"
  have e: "extract_table_data ?t =
     \<lparr>columns = [''#'', ''Athlete Name'', ''AVG'', ''AB''],
      rows = [[Some ''1'', Some ''Ann'', Some ''.300'', Some ''10''],
              [Some ''2'', Some ''Bob'', Some ''.250'', Some ''8'']]\<rparr>"
    by code_simp
  have h1: "[Some ''2'', Some ''Bob'', Some ''.250'', Some ''8''] \<in> set (rows (extract_table_data ?t))"
    unfolding e by simp
  have h2: "1 < length ['''', ''Team Totals'', ''.280'', ''25''] \<and>
    (str_contains ''season'' (lower (['''', ''Team Totals'', ''.280'', ''25''] ! 1)) \<or>
     str_contains ''totals'' (lower (['''', ''Team Totals'', ''.280'', ''25''] ! 1)))"
    by code_simp
  from summary_rows_excluded [of "[Some ''2'', Some ''Bob'', Some ''.250'', Some ''8'']" ?t
      "['''', ''Team Totals'', ''.280'', ''25'']" 4] h1 h2 e
  show ?thesis by blast
qed

text \<open>
  The claim as stated, about the athlete-name cell, fails when the name is not the second
  cell: in a table whose first column is \<open>Athlete Name\<close>, the row named \<open>Team Totals\<close> is
  extracted, and the row of the athlete Ann, whose second cell reads \<open>Season MVP\<close>, is not.
\<close>

theorem summary_row_kept_counterexample:
  "extract_table_data
     [[''Athlete Name'', ''Note'', ''AVG''],
      [''Team Totals'', ''-'', ''.280''],
      [''Ann'', ''Season MVP'', ''.300''],
      [''Bob'', ''P'', ''.250'']] =
   \<lparr>columns = [''Athlete Name'', ''Note'', ''AVG''],
    rows = [[Some ''Team Totals'', Some ''-'', Some ''.280''],
            [Some ''Bob'', Some ''P'', Some ''.250'']]\<rparr> \<and>
   str_contains ''totals'' (lower ''Team Totals'') \<and>
   [Some ''Team Totals'', Some ''-'', Some ''.280''] \<in> set (rows (extract_table_data
     [[''Athlete Name'', ''Note'', ''AVG''],
      [''Team Totals'', ''-'', ''.280''],
      [''Ann'', ''Season MVP'', ''.300''],
      [''Bob'', ''P'', ''.250'']]))"
proof -
  have e: "extract_table_data
     [[''Athlete Name'', ''Note'', ''AVG''],
      [''Team Totals'', ''-'', ''.280''],
      [''Ann'', ''Season MVP'', ''.300''],
      [''Bob'', ''P'', ''.250'']] =
   \<lparr>columns = [''Athlete Name'', ''Note'', ''AVG''],
    rows = [[Some ''Team Totals'', Some ''-'', Some ''.280''],
            [Some ''Bob'', Some ''P'', Some ''.250'']]\<rparr>"
    by code_simp
  have t: "str_contains ''totals'' (lower ''Team Totals'')" by code_simp
  show ?thesis unfolding e using t by simp
qed

text \<open>
  C9: every row of an extracted table comes from a data row with at least two cells whose
  second cell passes the season/totals test; a data row with fewer than two cells is
  dropped, also when it is not empty.
\<close>

theorem short_rows_dropped:
  "(r \<in> set (rows (extract_table_data t)) \<longrightarrow>
      (\<exists>row_data\<in>set (tl t). 2 \<le> length row_data \<and>
         \<not> str_contains ''season'' (lower (row_data ! 1)) \<and>
         \<not> str_contains ''totals'' (lower (row_data ! 1)) \<and>
         r = pad_row (length (columns (extract_table_data t))) row_data)) \<and>
   (length row_data < 2 \<longrightarrow> pad_row w row_data \<notin> set (rows (extract_table_data t)))"
proof (intro conjI impI)
  assume "r \<in> set (rows (extract_table_data t))"
  from extract_table_data_rows[OF this] obtain rd where
    "rd \<in> set (tl t)" "keep_row rd" "r = pad_row (length (columns (extract_table_data t))) rd"
    by blast
  then show "\<exists>row_data\<in>set (tl t). 2 \<le> length row_data \<and>
         \<not> str_contains ''season'' (lower (row_data ! 1)) \<and>
         \<not> str_contains ''totals'' (lower (row_data ! 1)) \<and>
         r = pad_row (length (columns (extract_table_data t))) row_data"
    by (intro bexI[of _ rd]) (auto simp: keep_row_def)
next
  assume a: "length row_data < 2"
  show "pad_row w row_data \<notin> set (rows (extract_table_data t))"
  proof
    assume "pad_row w row_data \<in> set (rows (extract_table_data t))"
    from extract_table_data_name_cell[OF this] obtain name where
      "1 < length (pad_row w row_data)" "pad_row w row_data ! 1 = Some name" by blast
    moreover from a have "length row_data \<le> 1" by simp
    ultimately show False using pad_row_short[of row_data 1 w] by simp
  qed
qed

theorem short_rows_dropped_witness:
  "[Some ''1'', Some ''Ann'', Some ''.300''] \<in> set (rows (extract_table_data
     [[''#'', ''Athlete Name'', ''AVG''],
      [''1'', ''Ann'', ''.300''], [''Pitching''], [''Totals''], []])) \<and>
   (\<exists>row_data\<in>set (tl [[''#'', ''Athlete Name'', ''AVG''],
      [''1'', ''Ann'', ''.300''], [''Pitching''], [''Totals''], []]).
      2 \<le> length row_data \<and>
      [Some ''1'', Some ''Ann'', Some ''.300''] = pad_row 3 row_data) \<and>
   pad_row 3 [''Pitching''] \<notin> set (rows (extract_table_data
     [[''#'', ''Athlete Name'', ''AVG''],
      [''1'', ''Ann'', ''.300''], [''Pitching''], [''Totals''], []]))"
proof -
  let ?t = "[[''#'', ''Athlete Name'', ''AVG''],
      [''1'', ''Ann'', ''.300''], [''Pitching''], [''Totals''], []]"
  have e: "extract_table_data ?t =
     \<lparr>columns = [''#'', ''Athlete Name'', ''AVG''],
      rows = [[Some ''1'', Some ''Ann'', Some ''.300'']]\<rparr>"
    by code_simp
  have h1: "[Some ''1'', Some ''Ann'', Some ''.300''] \<in> set (rows (extract_table_data ?t))"
    unfolding e by simp
  have h2: "length [''Pitching''] < 2" by simp
  have c: "length (columns (extract_table_data ?t)) = 3" unfolding e by simp
  from short_rows_dropped [of "[Some ''1'', Some ''Ann'', Some ''.300'']" ?t
      "[''Pitching'']" 3] h1 h2
  show ?thesis unfolding c by blast
qed


section \<open>Properties of the per-team orchestration\<close>

text \<open>
  C8, as the code has it: when the page of a team was fetched (a print URL, a response, no
  status from 400 to 599) and has at least one and fewer than 7 tables, \<open>process_team\<close>
  appends nothing to the outputs and exactly one line to the file of teams without
  statistics. The page is written to its file before the tables are counted: when that
  succeeded the line has the team name, its URL, the reason \<open>Insufficient tables\<close> and the
  number of tables; when it raised, the line has the reason \<open>Error:\<close> with the text of the
  exception and the count 0.
\<close>

theorem insufficient_tables_recorded:
  assumes "print_url env = Some u" and "get_page env = Inr response"
    and "\<not> (400 \<le> status_code response \<and> status_code response < 600)"
    and "tables response \<noteq> []" and "length (tables response) < 7"
  shows "(write_file env (html_file state_abbr (school info)) = None \<longrightarrow>
           outputs (process_team state_abbr s info env) = outputs s \<and>
           teams_without_stats (process_team state_abbr s info env) =
             teams_without_stats s @
             [school info @ '','' @ stats_url info @ '','' @ ''Insufficient tables'' @ '','' @
              str_nat (length (tables response)) @ [CHR 0x0A]]) \<and>
         (write_file env (html_file state_abbr (school info)) = Some e \<longrightarrow>
           outputs (process_team state_abbr s info env) = outputs s \<and>
           teams_without_stats (process_team state_abbr s info env) =
             teams_without_stats s @
             [school info @ '','' @ stats_url info @ '','' @ (''Error: '' @ str_error e) @
              '','' @ str_nat 0 @ [CHR 0x0A]])"
proof -
  from assms(3) have n: "status_code response \<noteq> 404" by auto
  have p: "process_team state_abbr s info env =
     (case write_file env (html_file state_abbr (school info)) of
        Some e \<Rightarrow>
          save_team_without_stats s (school info) (stats_url info)
            (''Error: '' @ str_error e) 0
      | None \<Rightarrow>
          save_team_without_stats s (school info) (stats_url info) ''Insufficient tables''
            (length (tables response)))"
  proof -
    from assms(3) have h: "(400 \<le> status_code response \<and> status_code response < 600) = False"
      by simp
    show ?thesis
      using assms(1,2,4,5) n by (simp add: process_team_def Let_def h)
  qed
  show ?thesis unfolding p by (simp add: save_team_without_stats_def)
qed

theorem insufficient_tables_recorded_witness:
  "outputs (process_team ''pa'' \<lparr>teams_without_stats = [], outputs = []\<rparr>
     \<lparr>school = ''Caesar Rodney'', stats_url = ''http://x/riders'', city_state = ''Dover, DE''\<rparr>
     \<lparr>print_url = Some ''http://x/print'',
      get_page = Inr \<lparr>status_code = 200, tables = [[], [], [], [], []]\<rparr>,
      write_file = open_in [''teams'', ''teams/PA'']\<rparr>) = [] \<and>
   teams_without_stats (process_team ''pa'' \<lparr>teams_without_stats = [], outputs = []\<rparr>
     \<lparr>school = ''Caesar Rodney'', stats_url = ''http://x/riders'', city_state = ''Dover, DE''\<rparr>
     \<lparr>print_url = Some ''http://x/print'',
      get_page = Inr \<lparr>status_code = 200, tables = [[], [], [], [], []]\<rparr>,
      write_file = open_in [''teams'', ''teams/PA'']\<rparr>) =
     [''Caesar Rodney,http://x/riders,Insufficient tables,5'' @ [CHR 0x0A]] \<and>
   html_file ''pa'' ''Caesar Rodney'' = ''teams/PA/Caesar_Rodney.html''"
proof -
  let ?env = "\<lparr>print_url = Some ''http://x/print'',
      get_page = Inr \<lparr>status_code = 200, tables = [[], [], [], [], []]\<rparr>,
      write_file = open_in [''teams'', ''teams/PA'']\<rparr>"
  let ?info = "\<lparr>school = ''Caesar Rodney'', stats_url = ''http://x/riders'',
      city_state = ''Dover, DE''\<rparr>"
  let ?s = "\<lparr>teams_without_stats = [], outputs = []\<rparr>"
  have n: "str_nat (Suc (Suc (Suc (Suc (Suc 0))))) = ''5''" by code_simp
  have f: "html_file ''pa'' ''Caesar Rodney'' = ''teams/PA/Caesar_Rodney.html''" by code_simp
  have w: "write_file ?env (html_file ''pa'' (school ?info)) = None" by code_simp
  have 1: "print_url ?env = Some ''http://x/print''" by simp
  have 2: "get_page ?env = Inr \<lparr>status_code = 200, tables = [[], [], [], [], []]\<rparr>" by simp
  have 3: "\<not> (400 \<le> status_code \<lparr>status_code = 200, tables = [[], [], [], [], []]\<rparr> \<and>
      status_code \<lparr>status_code = 200, tables = [[], [], [], [], []]\<rparr> < 600)" by simp
  have 4: "tables \<lparr>status_code = 200, tables = [[], [], [], [], []]\<rparr> \<noteq> []" by simp
  have 5: "length (tables \<lparr>status_code = 200, tables = [[], [], [], [], []]\<rparr>) < 7" by simp
  from insufficient_tables_recorded [OF 1 2 3 4 5, of "''pa''" ?info ?s] w
  have "outputs (process_team ''pa'' ?s ?info ?env) = [] \<and>
        teams_without_stats (process_team ''pa'' ?s ?info ?env) =
          [''Caesar Rodney,http://x/riders,Insufficient tables,5'' @ [CHR 0x0A]]"
    by (simp add: n)
  with f show ?thesis by simp
qed

text \<open>
  The claim as stated fails for a team whose page cannot be saved: with the directories
  \<open>teams\<close> and \<open>teams/PA\<close> only, the page of the school \<open>North/South Co-op\<close> goes to
  \<open>teams/PA/North/South_Co-op.html\<close>, the write raises, and the team with its 5 tables is
  recorded with the reason \<open>Error:\<close> and the count 0, not with \<open>Insufficient tables\<close> and 5.
\<close>

theorem insufficient_tables_unsaved_page_counterexample:
  "html_file ''pa'' ''North/South Co-op'' = ''teams/PA/North/South_Co-op.html'' \<and>
   process_team ''pa'' \<lparr>teams_without_stats = [], outputs = []\<rparr>
     \<lparr>school = ''North/South Co-op'', stats_url = ''http://x/nsc'', city_state = ''Erie, PA''\<rparr>
     \<lparr>print_url = Some ''http://x/print'',
      get_page = Inr \<lparr>status_code = 200, tables = [[], [], [], [], []]\<rparr>,
      write_file = open_in [''teams'', ''teams/PA'']\<rparr> =
   \<lparr>teams_without_stats =
      [''North/South Co-op,http://x/nsc,Error: [Errno 2] No such file or directory: '' @
       [CHR 0x27] @ ''teams/PA/North/South_Co-op.html'' @ [CHR 0x27] @ '',0'' @ [CHR 0x0A]],
    outputs = []\<rparr> \<and>
   teams_without_stats
     (process_team ''pa'' \<lparr>teams_without_stats = [], outputs = []\<rparr>
        \<lparr>school = ''North/South Co-op'', stats_url = ''http://x/nsc'',
         city_state = ''Erie, PA''\<rparr>
        \<lparr>print_url = Some ''http://x/print'',
         get_page = Inr \<lparr>status_code = 200, tables = [[], [], [], [], []]\<rparr>,
         write_file = open_in [''teams'', ''teams/PA'']\<rparr>) \<noteq>
   [''North/South Co-op,http://x/nsc,Insufficient tables,5'' @ [CHR 0x0A]]"
proof -
  have f: "html_file ''pa'' ''North/South Co-op'' = ''teams/PA/North/South_Co-op.html''"
    by code_simp
  have p: "process_team ''pa'' \<lparr>teams_without_stats = [], outputs = []\<rparr>
     \<lparr>school = ''North/South Co-op'', stats_url = ''http://x/nsc'', city_state = ''Erie, PA''\<rparr>
     \<lparr>print_url = Some ''http://x/print'',
      get_page = Inr \<lparr>status_code = 200, tables = [[], [], [], [], []]\<rparr>,
      write_file = open_in [''teams'', ''teams/PA'']\<rparr> =
   \<lparr>teams_without_stats =
      [''North/South Co-op,http://x/nsc,Error: [Errno 2] No such file or directory: '' @
       [CHR 0x27] @ ''teams/PA/North/South_Co-op.html'' @ [CHR 0x27] @ '',0'' @ [CHR 0x0A]],
    outputs = []\<rparr>"
    by code_simp
  show ?thesis unfolding p f by simp
qed


section \<open>Properties of data frames\<close>

lemma wf_frameI: "(\<And>r. r \<in> set (rows df) \<Longrightarrow> length r = length (columns df)) \<Longrightarrow> wf_frame df"
  by (simp add: wf_frame_def list_all_iff)

lemma wf_frameD: "wf_frame df \<Longrightarrow> r \<in> set (rows df) \<Longrightarrow> length r = length (columns df)"
  by (simp add: wf_frame_def list_all_iff)

lemma wf_rename_columns: "wf_frame df \<Longrightarrow> wf_frame (rename_columns df)"
  by (simp add: wf_frame_def rename_columns_def)

lemma wf_df_getitem:
  assumes "df_getitem df labels = Inr sel"
  shows "wf_frame sel"
  using assms
  by (auto simp: df_getitem_def wf_frame_def list_all_iff Let_def split: list.splits)

lemma wf_df_setitem: "wf_frame df \<Longrightarrow> wf_frame (df_setitem df label v)"
  by (auto simp: df_setitem_def wf_frame_def list_all_iff)

lemma merge_labels_length:
  "merge_labels lcols rcols = Inr (ll, rl) \<Longrightarrow> length ll = length lcols \<and> length rl = length rcols"
  by (auto simp: merge_labels_def Let_def split: if_splits)


lemma key_errors_Nil:
  "key_errors lcols rcols on = [] \<longleftrightarrow>
     (\<forall>k\<in>set on. check_key rcols k = None \<and> check_key lcols k = None)"
  by (auto simp: key_errors_def split: option.splits)

lemma map_filter_check_key_Nil:
  "List.map_filter (check_key cols) on = [] \<longleftrightarrow> (\<forall>k\<in>set on. check_key cols k = None)"
  by (auto simp: List.map_filter_def filter_empty_conv)

lemma pd_merge_InrD:
  assumes "pd_merge left right on = Inr m"
  shows "\<exists>ll rl.
      List.map_filter (check_key (columns right)) on = [] \<and>
      List.map_filter (check_key (columns left)) on = [] \<and>
      merge_labels (columns left)
        (map (\<lambda>i. columns right ! i) (value_positions (columns right) on)) = Inr (ll, rl) \<and>
      columns m = ll @ rl \<and>
      rows m = outer_rows (columns left) (columns right) on (rows left) (rows right)"
proof -
  from assms have "key_errors (columns left) (columns right) on = []"
    by (auto simp: pd_merge_def split: list.splits)
  moreover from this have "List.map_filter (check_key (columns right)) on = []"
    and "List.map_filter (check_key (columns left)) on = []"
    by (simp_all add: key_errors_Nil map_filter_check_key_Nil)
  ultimately show ?thesis
    using assms by (auto simp: pd_merge_def split: sum.splits)
qed

lemma set_left_rows:
  "set (left_rows lcols rcols on rrows l) =
     (if \<exists>r\<in>set rrows. key_of rcols on r = key_of lcols on l
      then (\<lambda>r. l @ map (\<lambda>i. r ! i) (value_positions rcols on)) `
             {r \<in> set rrows. key_of rcols on r = key_of lcols on l}
      else {l @ replicate (length (value_positions rcols on)) None})"
proof (cases "filter (\<lambda>r. key_of rcols on r = key_of lcols on l) rrows")
  case Nil
  then have "\<not> (\<exists>r\<in>set rrows. key_of rcols on r = key_of lcols on l)"
    by (simp add: filter_empty_conv)
  with Nil show ?thesis by (simp add: left_rows_def)
next
  case (Cons a ms)
  then have "a \<in> set (filter (\<lambda>r. key_of rcols on r = key_of lcols on l) rrows)" by simp
  then have ex: "\<exists>r\<in>set rrows. key_of rcols on r = key_of lcols on l" by auto
  have "set (left_rows lcols rcols on rrows l) =
      (\<lambda>r. l @ map (\<lambda>i. r ! i) (value_positions rcols on)) `
        set (filter (\<lambda>r. key_of rcols on r = key_of lcols on l) rrows)"
    unfolding left_rows_def Cons by simp
  with ex show ?thesis by simp
qed

lemma set_outer_rows:
  "set (outer_rows lcols rcols on lrows rrows) =
     (\<Union>l\<in>set lrows. set (left_rows lcols rcols on rrows l)) \<union>
     right_row lcols rcols on `
       {r \<in> set rrows. key_of rcols on r \<notin> key_of lcols on ` set lrows}"
  by (simp add: outer_rows_def)

lemma length_left_rows:
  "x \<in> set (left_rows lcols rcols on rrows l) \<Longrightarrow>
     length x = length l + length (value_positions rcols on)"
  by (auto simp: set_left_rows split: if_splits)

lemma length_right_row:
  "length (right_row lcols rcols on r) = length lcols + length (value_positions rcols on)"
  by (simp add: right_row_def)

lemma wf_pd_merge:
  assumes "pd_merge left right on = Inr m" and "wf_frame left"
  shows "wf_frame m"
proof -
  from pd_merge_InrD[OF assms(1)] obtain ll rl where
    ml: "merge_labels (columns left)
        (map (\<lambda>i. columns right ! i) (value_positions (columns right) on)) = Inr (ll, rl)"
    and c: "columns m = ll @ rl"
    and r: "rows m = outer_rows (columns left) (columns right) on (rows left) (rows right)"
    by blast
  from merge_labels_length[OF ml] c
  have len: "length (columns m) =
     length (columns left) + length (value_positions (columns right) on)" by simp
  show ?thesis
  proof (rule wf_frameI)
    fix x assume "x \<in> set (rows m)"
    then show "length x = length (columns m)"
      unfolding len r set_outer_rows
      using wf_frameD[OF assms(2)]
      by (auto simp: length_right_row dest!: length_left_rows)
  qed
qed

lemma wf_merge_loop:
  assumes "merge_loop d dfs = Inr m" and "wf_frame d"
  shows "wf_frame m"
  using assms
proof (induction dfs arbitrary: d)
  case Nil
  then show ?case by simp
next
  case (Cons df dfs)
  then show ?case
    by (auto simp: Let_def split: if_splits sum.splits dest: wf_pd_merge)
qed

lemma set_positions: "set (positions l cols) = {i. i < length cols \<and> cols ! i = l}"
  by (auto simp: positions_def)

lemma positions_Nil_iff: "positions l cols = [] \<longleftrightarrow> l \<notin> set cols"
  by (auto simp: positions_def filter_empty_conv in_set_conv_nth)

lemma set_row_cells:
  "set (row_cells df r label) = (\<lambda>i. r ! i) ` {i. i < length (columns df) \<and> columns df ! i = label}"
  by (simp add: row_cells_def set_positions)

text \<open>What an assignment does to the cells under a label.\<close>

lemma df_setitem_cells:
  assumes "wf_frame df" and "r' \<in> set (rows (df_setitem df label v))"
  shows "set (row_cells (df_setitem df label v) r' label) = {Some v}"
    and "label' \<noteq> label \<Longrightarrow> \<exists>r\<in>set (rows df).
           row_cells (df_setitem df label v) r' label' = row_cells df r label'"
proof -
  show "set (row_cells (df_setitem df label v) r' label) = {Some v}"
  proof (cases "label \<in> set (columns df)")
    case True
    with assms(2) obtain r where r: "r \<in> set (rows df)"
      and r': "r' = map (\<lambda>(c, x). if c = label then Some v else x) (zip (columns df) r)"
      by (auto simp: df_setitem_def)
    from wf_frameD[OF assms(1) r] have len: "length r = length (columns df)" .
    from True obtain i where "i < length (columns df)" "columns df ! i = label"
      by (auto simp: in_set_conv_nth)
    then show ?thesis
      using True len by (auto simp: set_row_cells df_setitem_def r' image_iff)
  next
    case False
    with assms(2) obtain r where r: "r \<in> set (rows df)" and r': "r' = r @ [Some v]"
      by (auto simp: df_setitem_def)
    from wf_frameD[OF assms(1) r] have len: "length r = length (columns df)" .
    have "{i. i < length (columns df @ [label]) \<and> (columns df @ [label]) ! i = label}
        = {length (columns df)}"
      using False by (auto simp: nth_append less_Suc_eq)
    moreover have "(r @ [Some v]) ! length (columns df) = Some v"
      using len by (metis nth_append_length)
    ultimately show ?thesis
      using False by (simp add: set_row_cells df_setitem_def r')
  qed
next
  assume ne: "label' \<noteq> label"
  show "\<exists>r\<in>set (rows df). row_cells (df_setitem df label v) r' label' = row_cells df r label'"
  proof (cases "label \<in> set (columns df)")
    case True
    with assms(2) obtain r where r: "r \<in> set (rows df)"
      and r': "r' = map (\<lambda>(c, x). if c = label then Some v else x) (zip (columns df) r)"
      by (auto simp: df_setitem_def)
    from wf_frameD[OF assms(1) r] have len: "length r = length (columns df)" .
    have "row_cells (df_setitem df label v) r' label' = row_cells df r label'"
      using True len ne by (auto simp: row_cells_def df_setitem_def r' set_positions)
    with r show ?thesis by blast
  next
    case False
    with assms(2) obtain r where r: "r \<in> set (rows df)" and r': "r' = r @ [Some v]"
      by (auto simp: df_setitem_def)
    from wf_frameD[OF assms(1) r] have len: "length r = length (columns df)" .
    have "positions label' (columns df @ [label]) = positions label' (columns df)"
      using ne by (auto simp: positions_def nth_append intro!: filter_cong)
    then have "row_cells (df_setitem df label v) r' label' = row_cells df r label'"
      using False len by (auto simp: row_cells_def df_setitem_def r' set_positions nth_append)
    with r show ?thesis by blast
  qed
qed

lemma add_team_info_cells:
  assumes "wf_frame df" and "r \<in> set (rows (add_team_info df team url loc))"
  shows "set (row_cells (add_team_info df team url loc) r ''TEAM'') = {Some team}"
    and "set (row_cells (add_team_info df team url loc) r ''CITY_STATE'') = {Some loc}"
    and "set (row_cells (add_team_info df team url loc) r ''STATS_URL'') = {Some url}"
proof -
  define d1 where "d1 = df_setitem df ''TEAM'' team"
  define d2 where "d2 = df_setitem d1 ''CITY_STATE'' loc"
  have a: "add_team_info df team url loc = df_setitem d2 ''STATS_URL'' url"
    by (simp add: add_team_info_def d1_def d2_def)
  have w1: "wf_frame d1" unfolding d1_def by (rule wf_df_setitem[OF assms(1)])
  have w2: "wf_frame d2" unfolding d2_def by (rule wf_df_setitem[OF w1])
  from assms(2) have r: "r \<in> set (rows (df_setitem d2 ''STATS_URL'' url))" by (simp add: a)
  show "set (row_cells (add_team_info df team url loc) r ''STATS_URL'') = {Some url}"
    unfolding a by (rule df_setitem_cells(1)[OF w2 r])
  from df_setitem_cells(2)[OF w2 r, of "''CITY_STATE''"] obtain r2 where
    r2: "r2 \<in> set (rows d2)" and
    e2: "row_cells (df_setitem d2 ''STATS_URL'' url) r ''CITY_STATE'' = row_cells d2 r2 ''CITY_STATE''"
    by auto
  from r2 have r2': "r2 \<in> set (rows (df_setitem d1 ''CITY_STATE'' loc))" by (simp add: d2_def)
  show "set (row_cells (add_team_info df team url loc) r ''CITY_STATE'') = {Some loc}"
    unfolding a e2 unfolding d2_def by (rule df_setitem_cells(1)[OF w1 r2'])
  from df_setitem_cells(2)[OF w2 r, of "''TEAM''"] obtain r3 where
    r3: "r3 \<in> set (rows d2)" and
    e3: "row_cells (df_setitem d2 ''STATS_URL'' url) r ''TEAM'' = row_cells d2 r3 ''TEAM''"
    by auto
  from r3 have r3': "r3 \<in> set (rows (df_setitem d1 ''CITY_STATE'' loc))" by (simp add: d2_def)
  from df_setitem_cells(2)[OF w1 r3', of "''TEAM''"] obtain r4 where
    r4: "r4 \<in> set (rows d1)" and
    e4: "row_cells (df_setitem d1 ''CITY_STATE'' loc) r3 ''TEAM'' = row_cells d1 r4 ''TEAM''"
    by auto
  from r4 have r4': "r4 \<in> set (rows (df_setitem df ''TEAM'' team))" by (simp add: d1_def)
  show "set (row_cells (add_team_info df team url loc) r ''TEAM'') = {Some team}"
    unfolding a e3 unfolding d2_def e4 unfolding d1_def
    by (rule df_setitem_cells(1)[OF assms(1) r4'])
qed

lemma merge_groups_mem:
  assumes "merge_groups gs team url loc = Inr merged"
    and "(c, m) \<in> set merged"
  shows "\<exists>dfs. (c, dfs) \<in> set gs \<and> dfs \<noteq> [] \<and>
           merge_group dfs team url loc = Inr m"
  using assms
proof (induction gs arbitrary: merged)
  case Nil
  then show ?case by simp
next
  case (Cons g gs)
  obtain c' dfs' where g: "g = (c', dfs')" by (cases g)
  show ?case
  proof (cases "dfs' = []")
    case True
    with Cons g show ?thesis by auto
  next
    case False
    with Cons.prems g obtain m' rest where
      1: "merge_group dfs' team url loc = Inr m'" and
      2: "merge_groups gs team url loc = Inr rest" and
      3: "merged = (c', m') # rest"
      by (auto split: sum.splits)
    show ?thesis
    proof (cases "(c, m) = (c', m')")
      case True
      with 1 False g show ?thesis by auto
    next
      case F: False
      with 3 Cons.prems(2) have "(c, m) \<in> set rest" by auto
      from Cons.IH[OF 2 this] show ?thesis by auto
    qed
  qed
qed

lemma merge_tables_by_type_mem:
  assumes "merge_tables_by_type tbls team url loc = Inr merged"
    and "(c, m) \<in> set merged"
  shows "table_groups tbls c \<noteq> [] \<and>
         merge_group (table_groups tbls c) team url loc = Inr m"
  using merge_groups_mem[OF assms[unfolded merge_tables_by_type_def]] by auto

lemma wf_table_groups:
  assumes "\<forall>df\<in>set tbls. wf_frame df" and "g \<in> set (table_groups tbls c)"
  shows "wf_frame g"
  using assms by (auto simp: table_groups_def wf_rename_columns)

text \<open>
  C6: in every merged table that \<open>_merge_tables_by_type\<close> returns, every row has the team
  name under \<open>TEAM\<close>, the city and state under \<open>CITY_STATE\<close> and the URL under \<open>STATS_URL\<close>,
  whatever tables the other cells of the row came from. The frames are those pandas
  builds, with as many cells in every row as columns; \<open>wf_extract_table_data\<close> shows that
  every extracted frame is one.
\<close>

theorem merged_rows_carry_team_info:
  assumes "merge_tables_by_type tbls team url loc = Inr merged"
    and "(table_type, m) \<in> set merged"
    and "\<forall>df\<in>set tbls. wf_frame df"
    and "r \<in> set (rows m)"
  shows "set (row_cells m r ''TEAM'') = {Some team} \<and>
         set (row_cells m r ''CITY_STATE'') = {Some loc} \<and>
         set (row_cells m r ''STATS_URL'') = {Some url}"
proof -
  from merge_tables_by_type_mem[OF assms(1,2)]
  have ne: "table_groups tbls table_type \<noteq> []"
    and mg: "merge_group (table_groups tbls table_type) team url loc = Inr m"
    by simp_all
  from mg obtain merged_df where
    ml: "merge_loop (hd (table_groups tbls table_type)) (tl (table_groups tbls table_type)) = Inr merged_df"
    and m: "m = add_team_info merged_df team url loc"
    by (auto simp: merge_group_def split: sum.splits)
  from ne have "hd (table_groups tbls table_type) \<in> set (table_groups tbls table_type)" by simp
  from wf_table_groups[OF assms(3) this] have "wf_frame (hd (table_groups tbls table_type))" .
  from wf_merge_loop[OF ml this] have w: "wf_frame merged_df" .
  from assms(4) have r: "r \<in> set (rows (add_team_info merged_df team url loc))"
    by (simp add: m)
  from add_team_info_cells[OF w r] show ?thesis by (simp add: m)
qed

theorem merged_rows_carry_team_info_witness:
  "merge_tables_by_type
     [\<lparr>columns = [''#'', ''Athlete Name'', ''AVG'', ''AB''],
       rows = [[Some ''1'', Some ''Ann'', Some ''.300'', Some ''10'']]\<rparr>,
      \<lparr>columns = [''#'', ''Athlete Name'', ''HR'', ''2B''],
       rows = [[Some ''2'', Some ''Bob'', Some ''1'', Some ''2'']]\<rparr>]
     ''Riders'' ''http://x/riders'' ''Dover, DE'' =
   Inr [(Batting,
         \<lparr>columns = [''#'', ''ATHLETE NAME'', ''AVG'', ''AB'', ''HR'', ''2B'',
                     ''TEAM'', ''CITY_STATE'', ''STATS_URL''],
          rows = [[Some ''1'', Some ''Ann'', Some ''.300'', Some ''10'', None, None,
                   Some ''Riders'', Some ''Dover, DE'', Some ''http://x/riders''],
                  [Some ''2'', Some ''Bob'', None, None, Some ''1'', Some ''2'',
                   Some ''Riders'', Some ''Dover, DE'', Some ''http://x/riders'']]\<rparr>)] \<and>
   set (row_cells
         \<lparr>columns = [''#'', ''ATHLETE NAME'', ''AVG'', ''AB'', ''HR'', ''2B'',
                     ''TEAM'', ''CITY_STATE'', ''STATS_URL''],
          rows = [[Some ''1'', Some ''Ann'', Some ''.300'', Some ''10'', None, None,
                   Some ''Riders'', Some ''Dover, DE'', Some ''http://x/riders''],
                  [Some ''2'', Some ''Bob'', None, None, Some ''1'', Some ''2'',
                   Some ''Riders'', Some ''Dover, DE'', Some ''http://x/riders'']]\<rparr>
         [Some ''2'', Some ''Bob'', None, None, Some ''1'', Some ''2'',
          Some ''Riders'', Some ''Dover, DE'', Some ''http://x/riders'']
         ''TEAM'') = {Some ''Riders''}"
proof -
  let ?A = "\<lparr>columns = [''#'', ''Athlete Name'', ''AVG'', ''AB''],
       rows = [[Some ''1'', Some ''Ann'', Some ''.300'', Some ''10'']]\<rparr>"
  let ?B = "\<lparr>columns = [''#'', ''Athlete Name'', ''HR'', ''2B''],
       rows = [[Some ''2'', Some ''Bob'', Some ''1'', Some ''2'']]\<rparr>"
  let ?r = "[Some ''2'', Some ''Bob'', None, None, Some ''1'', Some ''2'',
          Some ''Riders'', Some ''Dover, DE'', Some ''http://x/riders'']"
  let ?m = "\<lparr>columns = [''#'', ''ATHLETE NAME'', ''AVG'', ''AB'', ''HR'', ''2B'',
                     ''TEAM'', ''CITY_STATE'', ''STATS_URL''],
          rows = [[Some ''1'', Some ''Ann'', Some ''.300'', Some ''10'', None, None,
                   Some ''Riders'', Some ''Dover, DE'', Some ''http://x/riders''], ?r]\<rparr>"
  have h1: "merge_tables_by_type [?A, ?B] ''Riders'' ''http://x/riders'' ''Dover, DE'' =
      Inr [(Batting, ?m)]"
    by code_simp
  have h2: "(Batting, ?m) \<in> set [(Batting, ?m)]" by simp
  have h3: "\<forall>df\<in>set [?A, ?B]. wf_frame df" by (simp add: wf_frame_def)
  have h4: "?r \<in> set (rows ?m)" by simp
  from merged_rows_carry_team_info [OF h1 h2 h3 h4] h1 show ?thesis by simp
qed


section \<open>The join keys\<close>

lemma df_getitem_missing:
  assumes "\<not> set labels \<subseteq> set (columns df)"
  shows "\<exists>e. df_getitem df labels = Inl e"
proof -
  from assms have "filter (\<lambda>l. l \<notin> set (columns df)) labels \<noteq> []"
    by (auto simp: filter_empty_conv)
  then show ?thesis by (auto simp: df_getitem_def split: list.splits)
qed

lemma pd_merge_left_missing:
  assumes "\<not> set on \<subseteq> set (columns left)"
  shows "\<exists>e. pd_merge left right on = Inl e"
proof -
  from assms obtain k where k: "k \<in> set on" "k \<notin> set (columns left)" by auto
  then have "check_key (columns left) k = Some (KeyError k)"
    by (simp add: check_key_def positions_Nil_iff[THEN iffD2])
  with k have "key_errors (columns left) (columns right) on \<noteq> []"
    by (auto simp: key_errors_Nil)
  then show ?thesis by (auto simp: pd_merge_def split: list.splits)
qed

lemma merge_loop_right_missing:
  assumes "df \<in> set dfs" and "\<not> set key_columns \<subseteq> set (columns df)"
    and "\<not> set (columns df) \<subseteq> set key_columns"
  shows "\<exists>e. merge_loop base dfs = Inl e"
  using assms
proof (induction dfs arbitrary: base)
  case Nil
  then show ?case by simp
next
  case (Cons x xs)
  show ?case
  proof (cases "df = x")
    case True
    from Cons.prems(3) True
    have rc: "filter (\<lambda>col. col \<notin> set key_columns) (columns x) \<noteq> []"
      by (auto simp: filter_empty_conv)
    from Cons.prems(2) True
    have "\<not> set (key_columns @ filter (\<lambda>col. col \<notin> set key_columns) (columns x))
            \<subseteq> set (columns x)" by auto
    from df_getitem_missing[OF this] obtain e where
      "df_getitem x (key_columns @ filter (\<lambda>col. col \<notin> set key_columns) (columns x)) = Inl e"
      by blast
    with rc show ?thesis by (simp add: Let_def)
  next
    case False
    with Cons.prems have "df \<in> set xs" by simp
    from Cons.IH[OF this Cons.prems(2,3)] have "\<And>b. \<exists>e. merge_loop b xs = Inl e" .
    then show ?thesis by (simp add: Let_def split: sum.splits)
  qed
qed

lemma merge_loop_base_missing:
  assumes "\<not> set key_columns \<subseteq> set (columns base)"
    and "\<not> set (columns x) \<subseteq> set key_columns"
  shows "\<exists>e. merge_loop base (x # xs) = Inl e"
proof -
  from assms(2)
  have rc: "filter (\<lambda>col. col \<notin> set key_columns) (columns x) \<noteq> []"
    by (auto simp: filter_empty_conv)
  from pd_merge_left_missing[OF assms(1)]
  have "\<And>right. \<exists>e. pd_merge base right key_columns = Inl e" .
  with rc show ?thesis
    by (auto simp add: Let_def split: sum.splits) (metis Inl_Inr_False)
qed

text \<open>A frame that has a type has a column outside the join key.\<close>

lemma card_Int_pos: "1 \<le> card (A \<inter> P) \<Longrightarrow> \<exists>x\<in>A. x \<in> P"
  by (metis One_nat_def Suc_le_eq card_gt_0_iff disjoint_iff)

lemma typed_has_value_column:
  assumes "determine_table_type cols = Some c"
  shows "\<not> set (map (\<lambda>col. upper (strip col)) cols) \<subseteq> set key_columns"
proof -
  define P where "P = present_headers cols"
  define U where "U = pitching_basic \<union> pitching_advanced \<union> pitching_additional \<union>
    fielding_required \<union> baserunning_required \<union> batting_required \<union> batting_additional"
  have "\<exists>A. A \<subseteq> U \<and> 1 \<le> card (A \<inter> P)"
  proof (rule ccontr)
    assume n: "\<not> (\<exists>A. A \<subseteq> U \<and> 1 \<le> card (A \<inter> P))"
    have z: "A \<subseteq> U \<Longrightarrow> card (A \<inter> P) = 0" for A using n by (metis less_one not_le)
    have "card (pitching_basic \<inter> P) = 0" "card (pitching_advanced \<inter> P) = 0"
      "card (pitching_additional \<inter> P) = 0" "card (fielding_required \<inter> P) = 0"
      "card (baserunning_required \<inter> P) = 0" "card (batting_required \<inter> P) = 0"
      "card (batting_additional \<inter> P) = 0"
      by (simp_all add: z U_def le_supI1)
    with assms show False
      by (simp add: determine_table_type_cards P_def[symmetric])
  qed
  then obtain A where "A \<subseteq> U" "1 \<le> card (A \<inter> P)" by blast
  with card_Int_pos obtain x where x: "x \<in> U" "x \<in> P" by blast
  have "U \<inter> set key_columns = {}"
    unfolding U_def key_columns_def pitching_basic_def pitching_advanced_def
      pitching_additional_def fielding_required_def baserunning_required_def
      batting_required_def batting_additional_def
    by simp
  with x have "x \<notin> set key_columns" by blast
  with x(2) show ?thesis by (auto simp: P_def present_headers_def)
qed

lemma table_groups_value_column:
  assumes "g \<in> set (table_groups tbls c)"
  shows "\<not> set (columns g) \<subseteq> set key_columns"
proof -
  from assms obtain df where "determine_table_type (columns df) = Some c"
    and "g = rename_columns df"
    by (auto simp: table_groups_def)
  with typed_has_value_column[of "columns df" c] show ?thesis
    by (simp add: rename_columns_def)
qed

lemma merge_groups_error:
  assumes "(c, dfs) \<in> set gs" and "dfs \<noteq> []"
    and "merge_group dfs team url loc = Inl e"
  shows "\<exists>e'. merge_groups gs team url loc = Inl e'"
  using assms
proof (induction gs)
  case Nil
  then show ?case by simp
next
  case (Cons g gs)
  obtain c' dfs' where g: "g = (c', dfs')" by (cases g)
  show ?case
  proof (cases "(c, dfs) = g")
    case True
    with Cons.prems g show ?thesis by auto
  next
    case False
    with Cons.prems have "(c, dfs) \<in> set gs" by auto
    from Cons.IH[OF this Cons.prems(2,3)] obtain e' where
      "merge_groups gs team url loc = Inl e'" by blast
    then show ?thesis by (simp add: g split: sum.splits)
  qed
qed

text \<open>
  C10: in a group of two or more tables, when the base or a later table lacks one of the key
  columns \<open>#\<close> and \<open>ATHLETE NAME\<close> (labels trimmed and uppercased), the merge of the group
  raises an error, and so does \<open>_merge_tables_by_type\<close>: no merged table is produced.
\<close>

theorem missing_key_column_raises:
  assumes "table_groups tbls table_type = d # dfs" and "dfs \<noteq> []"
    and "\<exists>df\<in>set (d # dfs). \<not> set key_columns \<subseteq> set (columns df)"
  shows "(\<exists>e. merge_group (d # dfs) team url loc = Inl e) \<and>
         (\<exists>e. merge_tables_by_type tbls team url loc = Inl e)"
proof -
  have vc: "\<not> set (columns g) \<subseteq> set key_columns" if "g \<in> set (d # dfs)" for g
    using that table_groups_value_column[of g tbls table_type] assms(1) by simp
  have "\<exists>e. merge_loop d dfs = Inl e"
  proof (cases "set key_columns \<subseteq> set (columns d)")
    case True
    with assms(3) obtain df where "df \<in> set dfs" "\<not> set key_columns \<subseteq> set (columns df)"
      by auto
    with vc[of df] show ?thesis by (intro merge_loop_right_missing[of df]) auto
  next
    case False
    from assms(2) obtain x xs where "dfs = x # xs" by (cases dfs) auto
    with merge_loop_base_missing[OF False, of x xs] vc[of x] show ?thesis by simp
  qed
  then obtain e where e: "merge_group (d # dfs) team url loc = Inl e"
    by (auto simp: merge_group_def)
  have "(table_type, d # dfs) \<in>
     set (map (\<lambda>table_type. (table_type, table_groups tbls table_type))
          [Batting, Pitching, Fielding, Baserunning])"
    using assms(1) by (cases table_type) auto
  from merge_groups_error[OF this _ e]
  have "\<exists>e. merge_tables_by_type tbls team url loc = Inl e"
    by (simp add: merge_tables_by_type_def)
  with e show ?thesis by blast
qed

theorem missing_key_column_raises_witness:
  "table_groups
     [\<lparr>columns = [''#'', ''Athlete Name'', ''AVG'', ''AB''],
       rows = [[Some ''1'', Some ''Ann'', Some ''.300'', Some ''10'']]\<rparr>,
      \<lparr>columns = [''Athlete Name'', ''HR'', ''2B''],
       rows = [[Some ''Bob'', Some ''1'', Some ''2'']]\<rparr>] Batting =
     [\<lparr>columns = [''#'', ''ATHLETE NAME'', ''AVG'', ''AB''],
       rows = [[Some ''1'', Some ''Ann'', Some ''.300'', Some ''10'']]\<rparr>,
      \<lparr>columns = [''ATHLETE NAME'', ''HR'', ''2B''],
       rows = [[Some ''Bob'', Some ''1'', Some ''2'']]\<rparr>] \<and>
   (\<exists>e. merge_group
      [\<lparr>columns = [''#'', ''ATHLETE NAME'', ''AVG'', ''AB''],
        rows = [[Some ''1'', Some ''Ann'', Some ''.300'', Some ''10'']]\<rparr>,
       \<lparr>columns = [''ATHLETE NAME'', ''HR'', ''2B''],
        rows = [[Some ''Bob'', Some ''1'', Some ''2'']]\<rparr>]
      ''Riders'' ''http://x/riders'' ''Dover, DE'' = Inl e) \<and>
   (\<exists>e. merge_tables_by_type
      [\<lparr>columns = [''#'', ''Athlete Name'', ''AVG'', ''AB''],
        rows = [[Some ''1'', Some ''Ann'', Some ''.300'', Some ''10'']]\<rparr>,
       \<lparr>columns = [''Athlete Name'', ''HR'', ''2B''],
        rows = [[Some ''Bob'', Some ''1'', Some ''2'']]\<rparr>]
      ''Riders'' ''http://x/riders'' ''Dover, DE'' = Inl e)"
proof -
  let ?A = "\<lparr>columns = [''#'', ''Athlete Name'', ''AVG'', ''AB''],
       rows = [[Some ''1'', Some ''Ann'', Some ''.300'', Some ''10'']]\<rparr>"
  let ?C = "\<lparr>columns = [''Athlete Name'', ''HR'', ''2B''],
       rows = [[Some ''Bob'', Some ''1'', Some ''2'']]\<rparr>"
  let ?A' = "\<lparr>columns = [''#'', ''ATHLETE NAME'', ''AVG'', ''AB''],
       rows = [[Some ''1'', Some ''Ann'', Some ''.300'', Some ''10'']]\<rparr>"
  let ?C' = "\<lparr>columns = [''ATHLETE NAME'', ''HR'', ''2B''],
       rows = [[Some ''Bob'', Some ''1'', Some ''2'']]\<rparr>"
  have h1: "table_groups [?A, ?C] Batting = ?A' # [?C']" by code_simp
  have h2: "[?C'] \<noteq> []" by simp
  have h3: "\<exists>df\<in>set (?A' # [?C']). \<not> set key_columns \<subseteq> set (columns df)"
    by (simp add: key_columns_def)
  from missing_key_column_raises [OF h1 h2 h3, of "''Riders''" "''http://x/riders''" "''Dover, DE''"] h1
  show ?thesis by simp
qed


section \<open>The outer join of a group\<close>

lemma check_key_unique:
  assumes "List.map_filter (check_key cols) on = []" and "k \<in> set on"
  shows "\<exists>p. positions k cols = [p]"
proof -
  from assms have "check_key cols k = None"
    by (auto simp: List.map_filter_def filter_empty_conv)
  then show ?thesis
    by (auto simp: check_key_def split: list.splits)
qed

lemma positions_single:
  assumes "positions k cols = [p]"
  shows "p < length cols" and "cols ! p = k" and "\<And>i. i < length cols \<Longrightarrow> cols ! i = k \<Longrightarrow> i = p"
proof -
  have "set (positions k cols) = {i. i < length cols \<and> cols ! i = k}" by (rule set_positions)
  with assms have e: "{i. i < length cols \<and> cols ! i = k} = {p}" by simp
  then have "p \<in> {i. i < length cols \<and> cols ! i = k}" by simp
  then show "p < length cols" and "cols ! p = k" by simp_all
  fix i assume "i < length cols" "cols ! i = k"
  then have "i \<in> {i. i < length cols \<and> cols ! i = k}" by simp
  with e show "i = p" by simp
qed

lemma hd_positions_least:
  assumes "p < length cols" and "cols ! p = k" and "\<And>i. i < p \<Longrightarrow> cols ! i \<noteq> k"
  shows "hd (positions k cols) = p"
proof -
  have "[0..<length cols] = [0..<p] @ p # [Suc p..<length cols]"
    using assms(1) by (metis le_add1 less_imp_add_positive upt_add_eq_append upt_conv_Cons zero_le add.commute add_0 less_or_eq_imp_le)
  moreover have "filter (\<lambda>i. cols ! i = k) [0..<p] = []"
    using assms(3) by (auto simp: filter_empty_conv)
  ultimately show ?thesis using assms(2) by (simp add: positions_def)
qed

lemma merge_labels_key_position:
  assumes "merge_labels lcols rvals = Inr (ll, rl)" and "positions k lcols = [p]"
    and "k \<notin> set rvals"
  shows "hd (positions k (ll @ rl)) = p"
proof -
  from assms(1) have ll: "ll = map (\<lambda>x. if x \<in> set rvals then x @ ''_x'' else x) lcols"
    and nd: "\<not> suffix_dups lcols ll"
    by (auto simp: merge_labels_def Let_def split: if_splits)
  note p = positions_single[OF assms(2)]
  have llp: "ll ! p = k" using p(1,2) assms(3) by (simp add: ll)
  have len: "length ll = length lcols" by (simp add: ll)
  have first: "ll ! i \<noteq> k" if "i < p" for i
  proof
    assume e: "ll ! i = k"
    from that p(1) len have "i < length (take p ll)" by simp
    then have "take p ll ! i \<in> set (take p ll)" by (rule nth_mem)
    with that e have 1: "ll ! p \<in> set (take p ll)" by (simp add: llp)
    have 2: "lcols ! p \<notin> set (take p lcols)"
    proof
      assume "lcols ! p \<in> set (take p lcols)"
      then obtain j where "j < length (take p lcols)" "take p lcols ! j = lcols ! p"
        by (auto simp: in_set_conv_nth)
      then have "j < p" "j < length lcols" "lcols ! j = k" using p(1,2) by auto
      with p(3)[of j] show False by simp
    qed
    from 1 2 p(1) len have "suffix_dups lcols ll"
      by (auto simp: suffix_dups_def list_ex_iff intro!: bexI[of _ p])
    with nd show False by simp
  qed
  have "hd (positions k (ll @ rl)) = p"
  proof (rule hd_positions_least)
    show "p < length (ll @ rl)" using p(1) len by simp
    show "(ll @ rl) ! p = k" using p(1) len llp by (simp add: nth_append)
    fix i assume "i < p"
    then show "(ll @ rl) ! i \<noteq> k" using first[of i] p(1) len by (simp add: nth_append)
  qed
  then show ?thesis .
qed

lemma value_labels_no_key:
  "k \<in> set on \<Longrightarrow> k \<notin> set (map (\<lambda>i. rcols ! i) (value_positions rcols on))"
  by (auto simp: value_positions_def)

text \<open>Where a join key stands in the result of a join.\<close>

lemma pd_merge_key_position:
  assumes "pd_merge left right on = Inr m" and "k \<in> set on"
  shows "\<exists>p. positions k (columns left) = [p] \<and> hd (positions k (columns m)) = p"
proof -
  from pd_merge_InrD[OF assms(1)] obtain ll rl where
    ck: "List.map_filter (check_key (columns left)) on = []"
    and ml: "merge_labels (columns left)
        (map (\<lambda>i. columns right ! i) (value_positions (columns right) on)) = Inr (ll, rl)"
    and c: "columns m = ll @ rl"
    by blast
  from check_key_unique[OF ck assms(2)] obtain p where p: "positions k (columns left) = [p]"
    by blast
  from merge_labels_key_position[OF ml p value_labels_no_key[OF assms(2)]] p c
  show ?thesis by simp
qed

lemma pd_merge_key_of_left:
  assumes "pd_merge left right on = Inr m" and "length l = length (columns left)"
  shows "key_of (columns m) on (l @ x) = key_of (columns left) on l"
proof -
  have "(l @ x) ! hd (positions k (columns m)) = l ! hd (positions k (columns left))"
    if "k \<in> set on" for k
  proof -
    from pd_merge_key_position[OF assms(1) that] obtain p where
      p: "positions k (columns left) = [p]" "hd (positions k (columns m)) = p" by blast
    from positions_single(1)[OF p(1)] assms(2) have "p < length l" by simp
    with p show ?thesis by (simp add: nth_append)
  qed
  then show ?thesis by (simp add: key_of_def)
qed

lemma pd_merge_key_of_right_row:
  assumes "pd_merge left right on = Inr m"
  shows "key_of (columns m) on (right_row (columns left) (columns right) on r) =
         key_of (columns right) on r"
proof -
  have "right_row (columns left) (columns right) on r ! hd (positions k (columns m)) =
        r ! hd (positions k (columns right))"
    if "k \<in> set on" for k
  proof -
    from pd_merge_key_position[OF assms(1) that] obtain p where
      p: "positions k (columns left) = [p]" "hd (positions k (columns m)) = p" by blast
    note q = positions_single(1,2)[OF p(1)]
    with p(2) that show ?thesis by (simp add: right_row_def nth_append)
  qed
  then show ?thesis by (simp add: key_of_def)
qed

lemma left_rows_nonempty: "left_rows lcols rcols on rrows l \<noteq> []"
  by (simp add: left_rows_def split: list.splits)

lemma left_rows_prefix:
  "x \<in> set (left_rows lcols rcols on rrows l) \<Longrightarrow> \<exists>y. x = l @ y"
  by (auto simp: set_left_rows split: if_splits)

text \<open>Every key of the left frame and every key of the right frame is a key of the join.\<close>

lemma pd_merge_keeps_left_keys:
  assumes "pd_merge left right on = Inr m" and "wf_frame left" and "l \<in> set (rows left)"
  shows "key_of (columns left) on l \<in> key_of (columns m) on ` set (rows m)"
proof -
  from left_rows_nonempty obtain x where
    x: "x \<in> set (left_rows (columns left) (columns right) on (rows right) l)"
    by (meson last_in_set)
  from left_rows_prefix[OF x] obtain y where y: "x = l @ y" by blast
  from pd_merge_InrD[OF assms(1)]
  have r: "rows m = outer_rows (columns left) (columns right) on (rows left) (rows right)"
    by blast
  from x assms(3) have "x \<in> set (rows m)" unfolding r set_outer_rows by blast
  moreover from pd_merge_key_of_left[OF assms(1) wf_frameD[OF assms(2,3)], of y]
  have "key_of (columns m) on x = key_of (columns left) on l" by (simp add: y)
  ultimately show ?thesis by force
qed

lemma pd_merge_keeps_right_keys:
  assumes "pd_merge left right on = Inr m" and "wf_frame left" and "r \<in> set (rows right)"
  shows "key_of (columns right) on r \<in> key_of (columns m) on ` set (rows m)"
proof (cases "key_of (columns right) on r \<in> key_of (columns left) on ` set (rows left)")
  case True
  then obtain l where "l \<in> set (rows left)"
    "key_of (columns right) on r = key_of (columns left) on l" by blast
  with pd_merge_keeps_left_keys[OF assms(1,2)] show ?thesis by simp
next
  case False
  from pd_merge_InrD[OF assms(1)]
  have r: "rows m = outer_rows (columns left) (columns right) on (rows left) (rows right)"
    by blast
  from False assms(3)
  have "right_row (columns left) (columns right) on r \<in> set (rows m)"
    unfolding r set_outer_rows by blast
  with pd_merge_key_of_right_row[OF assms(1), of r] show ?thesis by force
qed

lemma hd_positions_mem:
  assumes "k \<in> set cols"
  shows "hd (positions k cols) < length cols" and "cols ! hd (positions k cols) = k"
proof -
  from assms have "positions k cols \<noteq> []" by (simp add: positions_Nil_iff)
  then have "hd (positions k cols) \<in> set (positions k cols)" by simp
  then show "hd (positions k cols) < length cols" and "cols ! hd (positions k cols) = k"
    by (simp_all add: set_positions)
qed

lemma df_getitem_InrD:
  assumes "df_getitem df labels = Inr sel"
  shows "set labels \<subseteq> set (columns df)"
    and "columns sel = map (\<lambda>i. columns df ! i)
           (concat (map (\<lambda>l. positions l (columns df)) labels))"
    and "rows sel = map (\<lambda>r. map (\<lambda>i. r ! i)
           (concat (map (\<lambda>l. positions l (columns df)) labels))) (rows df)"
proof -
  from assms have f: "filter (\<lambda>l. l \<notin> set (columns df)) labels = []"
    by (auto simp: df_getitem_def split: list.splits)
  then show "set labels \<subseteq> set (columns df)" by (auto simp: filter_empty_conv)
  from assms f show "columns sel = map (\<lambda>i. columns df ! i)
           (concat (map (\<lambda>l. positions l (columns df)) labels))"
    and "rows sel = map (\<lambda>r. map (\<lambda>i. r ! i)
           (concat (map (\<lambda>l. positions l (columns df)) labels))) (rows df)"
    by (auto simp: df_getitem_def Let_def)
qed

lemma df_getitem_key_cell:
  assumes "df_getitem df labels = Inr sel" and "k \<in> set labels"
    and "positions k (columns sel) = [q]"
  shows "map (\<lambda>i. r ! i) (concat (map (\<lambda>l. positions l (columns df)) labels)) ! q =
         r ! hd (positions k (columns df))"
proof -
  define cols where "cols = columns df"
  define idx where "idx = concat (map (\<lambda>l. positions l cols) labels)"
  note d = df_getitem_InrD[OF assms(1), folded cols_def, folded idx_def]
  note q = positions_single[OF assms(3)]
  from q(1) d(2) have ql: "q < length idx" by simp
  with q(2) d(2) have a: "cols ! (idx ! q) = k" by simp
  have sub: "set (positions k cols) \<subseteq> set idx"
    using assms(2) by (auto simp: idx_def)
  have only: "b = idx ! q" if "b \<in> set (positions k cols)" for b
  proof -
    from that sub have "b \<in> set idx" by blast
    then obtain q' where q': "q' < length idx" "idx ! q' = b"
      by (auto simp: in_set_conv_nth)
    from that have "cols ! b = k" by (simp add: set_positions)
    with q' d(2) have "q' < length (columns sel)" "columns sel ! q' = k" by simp_all
    from q(3)[OF this] q'(2) show ?thesis by simp
  qed
  from assms(2) d(1) have "k \<in> set cols" by auto
  then have "positions k cols \<noteq> []" by (simp add: positions_Nil_iff)
  then have "hd (positions k cols) \<in> set (positions k cols)" by simp
  from only[OF this] ql show ?thesis
    unfolding cols_def[symmetric] idx_def[symmetric] by simp
qed

lemma df_getitem_keys:
  assumes "df_getitem df labels = Inr sel" and "set on \<subseteq> set labels"
    and "List.map_filter (check_key (columns sel)) on = []"
  shows "key_of (columns sel) on ` set (rows sel) = key_of (columns df) on ` set (rows df)"
proof -
  define g where "g = (\<lambda>r::cell list. map (\<lambda>i. r ! i)
     (concat (map (\<lambda>l. positions l (columns df)) labels)))"
  have rows: "rows sel = map g (rows df)"
    using df_getitem_InrD(3)[OF assms(1)] by (simp add: g_def)
  have "key_of (columns sel) on (g r) = key_of (columns df) on r" for r
  proof -
    have "g r ! hd (positions k (columns sel)) = r ! hd (positions k (columns df))"
      if "k \<in> set on" for k
    proof -
      from check_key_unique[OF assms(3) that] obtain q where
        q: "positions k (columns sel) = [q]" by blast
      from that assms(2) have "k \<in> set labels" by auto
      from df_getitem_key_cell[OF assms(1) this q, of r] q show ?thesis
        by (simp add: g_def)
    qed
    then show ?thesis by (simp add: key_of_def)
  qed
  then show ?thesis by (auto simp: rows image_iff)
qed

lemma pd_merge_right_checked:
  "pd_merge left right on = Inr m \<Longrightarrow> List.map_filter (check_key (columns right)) on = []"
  by (drule pd_merge_InrD) blast

text \<open>The loop keeps the keys of the accumulated frame and adds those of every frame it
  joins.\<close>

lemma merge_loop_keeps_keys:
  assumes "merge_loop acc dfs = Inr m" and "wf_frame acc"
    and "\<forall>df\<in>set dfs. \<not> set (columns df) \<subseteq> set key_columns"
    and "df \<in> set (acc # dfs)"
  shows "key_of (columns df) key_columns ` set (rows df)
           \<subseteq> key_of (columns m) key_columns ` set (rows m)"
  using assms
proof (induction dfs arbitrary: acc df)
  case Nil
  then show ?case by simp
next
  case (Cons x xs)
  define rc where "rc = filter (\<lambda>col. col \<notin> set key_columns) (columns x)"
  from Cons.prems(3) have rc: "rc \<noteq> []" by (auto simp: rc_def filter_empty_conv)
  with Cons.prems(1) obtain sel acc' where
    sel: "df_getitem x (key_columns @ rc) = Inr sel"
    and mg: "pd_merge acc sel key_columns = Inr acc'"
    and rest: "merge_loop acc' xs = Inr m"
    by (auto simp: Let_def rc_def[symmetric] split: sum.splits)
  have w': "wf_frame acc'" by (rule wf_pd_merge[OF mg Cons.prems(2)])
  from Cons.prems(3) have vs: "\<forall>df\<in>set xs. \<not> set (columns df) \<subseteq> set key_columns" by simp
  have up: "key_of (columns acc') key_columns ` set (rows acc')
      \<subseteq> key_of (columns m) key_columns ` set (rows m)"
    by (rule Cons.IH[OF rest w' vs]) simp
  consider "df = acc" | "df = x" | "df \<in> set xs" using Cons.prems(4) by auto
  then show ?case
  proof cases
    case 1
    have "key_of (columns acc) key_columns ` set (rows acc)
        \<subseteq> key_of (columns acc') key_columns ` set (rows acc')"
      using pd_merge_keeps_left_keys[OF mg Cons.prems(2)] by blast
    with up 1 show ?thesis by blast
  next
    case 2
    have "key_of (columns sel) key_columns ` set (rows sel) =
          key_of (columns x) key_columns ` set (rows x)"
      by (rule df_getitem_keys[OF sel _ pd_merge_right_checked[OF mg]]) simp
    moreover have "key_of (columns sel) key_columns ` set (rows sel)
        \<subseteq> key_of (columns acc') key_columns ` set (rows acc')"
      using pd_merge_keeps_right_keys[OF mg Cons.prems(2)] by blast
    ultimately show ?thesis using up 2 by blast
  next
    case 3
    then have "df \<in> set (acc' # xs)" by simp
    from Cons.IH[OF rest w' vs this] show ?thesis .
  qed
qed

lemma pd_merge_has_keys:
  assumes "pd_merge left right on = Inr m"
  shows "set on \<subseteq> set (columns m)"
proof
  fix k assume k: "k \<in> set on"
  from pd_merge_InrD[OF assms] obtain ll rl where
    ck: "List.map_filter (check_key (columns left)) on = []"
    and ml: "merge_labels (columns left)
        (map (\<lambda>i. columns right ! i) (value_positions (columns right) on)) = Inr (ll, rl)"
    and c: "columns m = ll @ rl"
    by blast
  from check_key_unique[OF ck k] obtain p where p: "positions k (columns left) = [p]" by blast
  note q = positions_single(1,2)[OF p]
  from ml have "ll = map (\<lambda>x. if x \<in> set (map (\<lambda>i. columns right ! i)
       (value_positions (columns right) on)) then x @ ''_x'' else x) (columns left)"
    by (auto simp: merge_labels_def Let_def split: if_splits)
  with q value_labels_no_key[OF k, of "columns right"] have "ll ! p = k" "p < length ll"
    by simp_all
  then have "k \<in> set ll" by (metis nth_mem)
  then show "k \<in> set (columns m)" by (simp add: c)
qed

lemma merge_loop_has_keys:
  assumes "merge_loop acc dfs = Inr m" and "set key_columns \<subseteq> set (columns acc)"
  shows "set key_columns \<subseteq> set (columns m)"
  using assms
proof (induction dfs arbitrary: acc)
  case Nil
  then show ?case by simp
next
  case (Cons x xs)
  show ?case
  proof (cases "filter (\<lambda>col. col \<notin> set key_columns) (columns x) = []")
    case True
    with Cons show ?thesis by (simp add: Let_def)
  next
    case False
    with Cons.prems(1) obtain sel acc' where
      mg: "pd_merge acc sel key_columns = Inr acc'"
      and rest: "merge_loop acc' xs = Inr m"
      by (auto simp: Let_def split: sum.splits)
    from Cons.IH[OF rest pd_merge_has_keys[OF mg]] show ?thesis .
  qed
qed

lemma df_setitem_keys:
  assumes "wf_frame df" and "set on \<subseteq> set (columns df)" and "label \<notin> set on"
  shows "key_of (columns (df_setitem df label v)) on ` set (rows (df_setitem df label v)) =
         key_of (columns df) on ` set (rows df)"
    and "set on \<subseteq> set (columns (df_setitem df label v))"
proof -
  show "set on \<subseteq> set (columns (df_setitem df label v))"
    using assms(2) by (auto simp: df_setitem_def)
  show "key_of (columns (df_setitem df label v)) on ` set (rows (df_setitem df label v)) =
         key_of (columns df) on ` set (rows df)"
  proof (cases "label \<in> set (columns df)")
    case True
    define f where "f = (\<lambda>r::cell list.
       map (\<lambda>(c, x). if c = label then Some v else x) (zip (columns df) r))"
    from True have d: "columns (df_setitem df label v) = columns df"
      "rows (df_setitem df label v) = map f (rows df)"
      by (simp_all add: df_setitem_def f_def)
    have "key_of (columns df) on (f r) = key_of (columns df) on r" if "r \<in> set (rows df)" for r
    proof -
      from wf_frameD[OF assms(1) that] have len: "length r = length (columns df)" .
      have "f r ! hd (positions k (columns df)) = r ! hd (positions k (columns df))"
        if "k \<in> set on" for k
      proof -
        from that assms(2) have "k \<in> set (columns df)" by auto
        note h = hd_positions_mem[OF this]
        from that assms(3) have "k \<noteq> label" by auto
        with h len show ?thesis by (simp add: f_def)
      qed
      then show ?thesis by (simp add: key_of_def)
    qed
    then show ?thesis unfolding d by (auto simp: image_iff)
  next
    case False
    then have d: "columns (df_setitem df label v) = columns df @ [label]"
      "rows (df_setitem df label v) = map (\<lambda>r. r @ [Some v]) (rows df)"
      by (simp_all add: df_setitem_def)
    have "key_of (columns df @ [label]) on (r @ [Some v]) = key_of (columns df) on r"
      if "r \<in> set (rows df)" for r
    proof -
      from wf_frameD[OF assms(1) that] have len: "length r = length (columns df)" .
      have "(r @ [Some v]) ! hd (positions k (columns df @ [label])) =
            r ! hd (positions k (columns df))"
        if "k \<in> set on" for k
      proof -
        from that assms(2) have "k \<in> set (columns df)" by auto
        note h = hd_positions_mem[OF this]
        from that assms(3) have "k \<noteq> label" by auto
        then have "positions k (columns df @ [label]) = positions k (columns df)"
          by (auto simp: positions_def nth_append intro!: filter_cong)
        with h len show ?thesis by (simp add: nth_append)
      qed
      then show ?thesis by (simp add: key_of_def)
    qed
    then show ?thesis unfolding d by (auto simp: image_iff)
  qed
qed

lemma add_team_info_keys:
  assumes "wf_frame df" and "set key_columns \<subseteq> set (columns df)"
  shows "key_of (columns (add_team_info df team url loc)) key_columns `
           set (rows (add_team_info df team url loc)) =
         key_of (columns df) key_columns ` set (rows df)"
proof -
  define d1 where "d1 = df_setitem df ''TEAM'' team"
  define d2 where "d2 = df_setitem d1 ''CITY_STATE'' loc"
  have a: "add_team_info df team url loc = df_setitem d2 ''STATS_URL'' url"
    by (simp add: add_team_info_def d1_def d2_def)
  have n: "''TEAM'' \<notin> set key_columns" "''CITY_STATE'' \<notin> set key_columns"
    "''STATS_URL'' \<notin> set key_columns" by (simp_all add: key_columns_def)
  have w1: "wf_frame d1" unfolding d1_def by (rule wf_df_setitem[OF assms(1)])
  have w2: "wf_frame d2" unfolding d2_def by (rule wf_df_setitem[OF w1])
  note k1 = df_setitem_keys[OF assms(1,2) n(1), of team, folded d1_def]
  note k2 = df_setitem_keys[OF w1 k1(2) n(2), of loc, folded d2_def]
  note k3 = df_setitem_keys[OF w2 k2(2) n(3), of url]
  show ?thesis unfolding a using k1(1) k2(1) k3(1) by simp
qed

text \<open>
  C3: the first table of a group is the base and every later table is joined to the
  accumulated result on the key (\<open>#\<close>, \<open>ATHLETE NAME\<close>), its own key columns left out of its
  value columns. When the merge of a group succeeds, the key of every row of every table of
  the group is the key of a row of the merged table: an athlete of one table only still
  appears. In a join, a left row with no partner is in the result with missing cells under
  the value columns of the right frame, and a right row with no partner is in the result
  with its key, missing cells under the other columns of the left frame, and its own
  values. Merging \<open>#\<close>, \<open>ATHLETE NAME\<close>, \<open>AVG\<close> for athletes 1 and 2 with \<open>#\<close>, \<open>ATHLETE NAME\<close>,
  \<open>ERA\<close> for athletes 2 and 3 gives three rows, athlete 1 with no \<open>ERA\<close> and athlete 3 with no
  \<open>AVG\<close>.
\<close>

theorem outer_join_keeps_athletes:
  "(merge_group (d # dfs) team url loc = Inr m \<longrightarrow> wf_frame d \<longrightarrow>
      (\<forall>g\<in>set dfs. \<not> set (columns g) \<subseteq> set key_columns) \<longrightarrow>
      set key_columns \<subseteq> set (columns d) \<longrightarrow> df \<in> set (d # dfs) \<longrightarrow> r \<in> set (rows df) \<longrightarrow>
      key_of (columns df) key_columns r \<in> key_of (columns m) key_columns ` set (rows m)) \<and>
   (pd_merge left right on = Inr j \<longrightarrow> l \<in> set (rows left) \<longrightarrow>
      key_of (columns left) on l \<notin> key_of (columns right) on ` set (rows right) \<longrightarrow>
      l @ replicate (length (value_positions (columns right) on)) None \<in> set (rows j)) \<and>
   (pd_merge left right on = Inr j \<longrightarrow> r' \<in> set (rows right) \<longrightarrow>
      key_of (columns right) on r' \<notin> key_of (columns left) on ` set (rows left) \<longrightarrow>
      map (\<lambda>c. if c \<in> set on then r' ! hd (positions c (columns right)) else None)
          (columns left) @
      map (\<lambda>i. r' ! i) (value_positions (columns right) on) \<in> set (rows j)) \<and>
   merge_loop
     \<lparr>columns = [''#'', ''ATHLETE NAME'', ''AVG''],
      rows = [[Some ''1'', Some ''Ann'', Some ''.300''],
              [Some ''2'', Some ''Bob'', Some ''.250'']]\<rparr>
     [\<lparr>columns = [''#'', ''ATHLETE NAME'', ''ERA''],
       rows = [[Some ''2'', Some ''Bob'', Some ''3.10''],
               [Some ''3'', Some ''Cy'', Some ''2.00'']]\<rparr>] =
   Inr \<lparr>columns = [''#'', ''ATHLETE NAME'', ''AVG'', ''ERA''],
        rows = [[Some ''1'', Some ''Ann'', Some ''.300'', None],
                [Some ''2'', Some ''Bob'', Some ''.250'', Some ''3.10''],
                [Some ''3'', Some ''Cy'', None, Some ''2.00'']]\<rparr>"
proof (intro conjI impI)
  assume mg: "merge_group (d # dfs) team url loc = Inr m" and w: "wf_frame d"
    and vc: "\<forall>g\<in>set dfs. \<not> set (columns g) \<subseteq> set key_columns"
    and kc: "set key_columns \<subseteq> set (columns d)"
    and df: "df \<in> set (d # dfs)" and r: "r \<in> set (rows df)"
  from mg obtain acc where ml: "merge_loop d dfs = Inr acc"
    and m: "m = add_team_info acc team url loc"
    by (auto simp: merge_group_def split: sum.splits)
  from merge_loop_keeps_keys[OF ml w vc df] r
  have "key_of (columns df) key_columns r \<in> key_of (columns acc) key_columns ` set (rows acc)"
    by blast
  also have "\<dots> = key_of (columns m) key_columns ` set (rows m)"
    unfolding m
    by (rule add_team_info_keys[OF wf_merge_loop[OF ml w] merge_loop_has_keys[OF ml kc],
          symmetric])
  finally show "key_of (columns df) key_columns r \<in> key_of (columns m) key_columns ` set (rows m)" .
next
  assume mg: "pd_merge left right on = Inr j" and l: "l \<in> set (rows left)"
    and n: "key_of (columns left) on l \<notin> key_of (columns right) on ` set (rows right)"
  from pd_merge_InrD[OF mg]
  have rj: "rows j = outer_rows (columns left) (columns right) on (rows left) (rows right)"
    by blast
  from n have "\<not> (\<exists>r\<in>set (rows right). key_of (columns right) on r = key_of (columns left) on l)"
    by force
  then have "l @ replicate (length (value_positions (columns right) on)) None
      \<in> set (left_rows (columns left) (columns right) on (rows right) l)"
    by (simp add: set_left_rows)
  with l show "l @ replicate (length (value_positions (columns right) on)) None \<in> set (rows j)"
    unfolding rj set_outer_rows by blast
next
  assume mg: "pd_merge left right on = Inr j" and r: "r' \<in> set (rows right)"
    and n: "key_of (columns right) on r' \<notin> key_of (columns left) on ` set (rows left)"
  from pd_merge_InrD[OF mg]
  have rj: "rows j = outer_rows (columns left) (columns right) on (rows left) (rows right)"
    by blast
  from r n have "right_row (columns left) (columns right) on r' \<in> set (rows j)"
    unfolding rj set_outer_rows by blast
  then show "map (\<lambda>c. if c \<in> set on then r' ! hd (positions c (columns right)) else None)
          (columns left) @
      map (\<lambda>i. r' ! i) (value_positions (columns right) on) \<in> set (rows j)"
    by (simp add: right_row_def)
next
  show "merge_loop
     \<lparr>columns = [''#'', ''ATHLETE NAME'', ''AVG''],
      rows = [[Some ''1'', Some ''Ann'', Some ''.300''],
              [Some ''2'', Some ''Bob'', Some ''.250'']]\<rparr>
     [\<lparr>columns = [''#'', ''ATHLETE NAME'', ''ERA''],
       rows = [[Some ''2'', Some ''Bob'', Some ''3.10''],
               [Some ''3'', Some ''Cy'', Some ''2.00'']]\<rparr>] =
   Inr \<lparr>columns = [''#'', ''ATHLETE NAME'', ''AVG'', ''ERA''],
        rows = [[Some ''1'', Some ''Ann'', Some ''.300'', None],
                [Some ''2'', Some ''Bob'', Some ''.250'', Some ''3.10''],
                [Some ''3'', Some ''Cy'', None, Some ''2.00'']]\<rparr>"
    by code_simp
qed

theorem outer_join_keeps_athletes_witness:
  "merge_group
     [\<lparr>columns = [''#'', ''ATHLETE NAME'', ''AVG''],
       rows = [[Some ''1'', Some ''Ann'', Some ''.300''],
               [Some ''2'', Some ''Bob'', Some ''.250'']]\<rparr>,
      \<lparr>columns = [''#'', ''ATHLETE NAME'', ''ERA''],
       rows = [[Some ''2'', Some ''Bob'', Some ''3.10''],
               [Some ''3'', Some ''Cy'', Some ''2.00'']]\<rparr>]
     ''Riders'' ''http://x/riders'' ''Dover, DE'' =
   Inr \<lparr>columns = [''#'', ''ATHLETE NAME'', ''AVG'', ''ERA'', ''TEAM'', ''CITY_STATE'',
                   ''STATS_URL''],
        rows = [[Some ''1'', Some ''Ann'', Some ''.300'', None,
                 Some ''Riders'', Some ''Dover, DE'', Some ''http://x/riders''],
                [Some ''2'', Some ''Bob'', Some ''.250'', Some ''3.10'',
                 Some ''Riders'', Some ''Dover, DE'', Some ''http://x/riders''],
                [Some ''3'', Some ''Cy'', None, Some ''2.00'',
                 Some ''Riders'', Some ''Dover, DE'', Some ''http://x/riders'']]\<rparr> \<and>
   [Some ''3'', Some ''Cy''] \<in>
     key_of [''#'', ''ATHLETE NAME'', ''AVG'', ''ERA'', ''TEAM'', ''CITY_STATE'', ''STATS_URL'']
       key_columns `
     set [[Some ''1'', Some ''Ann'', Some ''.300'', None,
           Some ''Riders'', Some ''Dover, DE'', Some ''http://x/riders''],
          [Some ''2'', Some ''Bob'', Some ''.250'', Some ''3.10'',
           Some ''Riders'', Some ''Dover, DE'', Some ''http://x/riders''],
          [Some ''3'', Some ''Cy'', None, Some ''2.00'',
           Some ''Riders'', Some ''Dover, DE'', Some ''http://x/riders'']] \<and>
   [Some ''1'', Some ''Ann'', Some ''.300'', None] \<in> set
     [[Some ''1'', Some ''Ann'', Some ''.300'', None],
      [Some ''2'', Some ''Bob'', Some ''.250'', Some ''3.10''],
      [Some ''3'', Some ''Cy'', None, Some ''2.00'']] \<and>
   [Some ''3'', Some ''Cy'', None, Some ''2.00''] \<in> set
     [[Some ''1'', Some ''Ann'', Some ''.300'', None],
      [Some ''2'', Some ''Bob'', Some ''.250'', Some ''3.10''],
      [Some ''3'', Some ''Cy'', None, Some ''2.00'']]"
proof -
  let ?A = "\<lparr>columns = [''#'', ''ATHLETE NAME'', ''AVG''],
       rows = [[Some ''1'', Some ''Ann'', Some ''.300''],
               [Some ''2'', Some ''Bob'', Some ''.250'']]\<rparr>"
  let ?B = "\<lparr>columns = [''#'', ''ATHLETE NAME'', ''ERA''],
       rows = [[Some ''2'', Some ''Bob'', Some ''3.10''],
               [Some ''3'', Some ''Cy'', Some ''2.00'']]\<rparr>"
  let ?J = "\<lparr>columns = [''#'', ''ATHLETE NAME'', ''AVG'', ''ERA''],
        rows = [[Some ''1'', Some ''Ann'', Some ''.300'', None],
                [Some ''2'', Some ''Bob'', Some ''.250'', Some ''3.10''],
                [Some ''3'', Some ''Cy'', None, Some ''2.00'']]\<rparr>"
  let ?M = "\<lparr>columns = [''#'', ''ATHLETE NAME'', ''AVG'', ''ERA'', ''TEAM'', ''CITY_STATE'',
                   ''STATS_URL''],
        rows = [[Some ''1'', Some ''Ann'', Some ''.300'', None,
                 Some ''Riders'', Some ''Dover, DE'', Some ''http://x/riders''],
                [Some ''2'', Some ''Bob'', Some ''.250'', Some ''3.10'',
                 Some ''Riders'', Some ''Dover, DE'', Some ''http://x/riders''],
                [Some ''3'', Some ''Cy'', None, Some ''2.00'',
                 Some ''Riders'', Some ''Dover, DE'', Some ''http://x/riders'']]\<rparr>"
  let ?l = "[Some ''1'', Some ''Ann'', Some ''.300'']"
  let ?r = "[Some ''3'', Some ''Cy'', Some ''2.00'']"
  have g: "merge_group (?A # [?B]) ''Riders'' ''http://x/riders'' ''Dover, DE'' = Inr ?M"
    by code_simp
  have w: "wf_frame ?A" by (simp add: wf_frame_def)
  have v: "\<forall>g\<in>set [?B]. \<not> set (columns g) \<subseteq> set key_columns"
    by (simp add: key_columns_def)
  have k: "set key_columns \<subseteq> set (columns ?A)" by (simp add: key_columns_def)
  have b: "?B \<in> set (?A # [?B])" by simp
  have r: "?r \<in> set (rows ?B)" by simp
  have kr: "key_of (columns ?B) key_columns ?r = [Some ''3'', Some ''Cy'']" by code_simp
  have j: "pd_merge ?A ?B key_columns = Inr ?J" by code_simp
  have l: "?l \<in> set (rows ?A)" by simp
  have nl: "key_of (columns ?A) key_columns ?l \<notin> key_of (columns ?B) key_columns ` set (rows ?B)"
    by code_simp
  have nr: "key_of (columns ?B) key_columns ?r \<notin> key_of (columns ?A) key_columns ` set (rows ?A)"
    by code_simp
  have e1: "?l @ replicate (length (value_positions (columns ?B) key_columns)) None =
      [Some ''1'', Some ''Ann'', Some ''.300'', None]" by code_simp
  have e2: "map (\<lambda>c. if c \<in> set key_columns then ?r ! hd (positions c (columns ?B)) else None)
          (columns ?A) @ map (\<lambda>i. ?r ! i) (value_positions (columns ?B) key_columns) =
      [Some ''3'', Some ''Cy'', None, Some ''2.00'']" by code_simp
  note t = outer_join_keeps_athletes [of ?A "[?B]" "''Riders''" "''http://x/riders''"
      "''Dover, DE''" ?M ?B ?r ?A ?B key_columns ?J ?l ?r]
  from t g w v k b r have 1: "key_of (columns ?B) key_columns ?r \<in>
      key_of (columns ?M) key_columns ` set (rows ?M)" by blast
  from t j l nl have 2: "?l @ replicate (length (value_positions (columns ?B) key_columns)) None
      \<in> set (rows ?J)" by blast
  from t j r nr have 3:
    "map (\<lambda>c. if c \<in> set key_columns then ?r ! hd (positions c (columns ?B)) else None)
          (columns ?A) @ map (\<lambda>i. ?r ! i) (value_positions (columns ?B) key_columns)
      \<in> set (rows ?J)" by blast
  from 1 2 3 g show ?thesis unfolding kr e1 e2 by simp
qed


section \<open>The column labels of a merged table\<close>

lemma suffix_dups_same: "\<not> suffix_dups xs xs"
  by (simp add: suffix_dups_def list_ex_iff)

lemma merge_labels_disjoint:
  assumes "set lcols \<inter> set rvals = {}"
  shows "merge_labels lcols rvals = Inr (lcols, rvals)"
proof -
  from assms have "map (\<lambda>x. if x \<in> set rvals then x @ ''_x'' else x) lcols = lcols"
    by (intro map_idI) auto
  moreover from assms have "map (\<lambda>x. if x \<in> set lcols then x @ ''_y'' else x) rvals = rvals"
    by (intro map_idI) auto
  ultimately show ?thesis by (simp add: merge_labels_def suffix_dups_same)
qed

lemma set_value_labels:
  "set (map (\<lambda>i. rcols ! i) (value_positions rcols on)) = set rcols - set on"
  by (auto simp: value_positions_def in_set_conv_nth)

lemma pd_merge_columns_disjoint:
  assumes "pd_merge left right on = Inr m"
    and "set (columns left) \<inter> (set (columns right) - set on) = {}"
  shows "set (columns m) = set (columns left) \<union> (set (columns right) - set on)"
proof -
  from pd_merge_InrD[OF assms(1)] obtain ll rl where
    ml: "merge_labels (columns left)
        (map (\<lambda>i. columns right ! i) (value_positions (columns right) on)) = Inr (ll, rl)"
    and c: "columns m = ll @ rl"
    by blast
  from assms(2) have "set (columns left) \<inter>
      set (map (\<lambda>i. columns right ! i) (value_positions (columns right) on)) = {}"
    by (simp only: set_value_labels)
  from merge_labels_disjoint[OF this] ml
  have "ll = columns left"
    "rl = map (\<lambda>i. columns right ! i) (value_positions (columns right) on)" by simp_all
  then show ?thesis by (simp only: c set_append set_value_labels)
qed

lemma df_getitem_columns:
  assumes "df_getitem df labels = Inr sel"
  shows "set (columns sel) = set labels"
proof -
  note d = df_getitem_InrD(1,2)[OF assms]
  have "columns df ! i = l" if "i \<in> set (positions l (columns df))" for i l
    using that by (simp add: set_positions)
  then have 1: "set (columns sel) \<subseteq> set labels" unfolding d(2) by auto
  have "l \<in> set (columns sel)" if "l \<in> set labels" for l
  proof -
    from that d(1) have "l \<in> set (columns df)" by auto
    from hd_positions_mem(2)[OF this] positions_Nil_iff[of l "columns df"] this
    have "hd (positions l (columns df)) \<in> set (positions l (columns df))"
      "columns df ! hd (positions l (columns df)) = l" by simp_all
    then have "l \<in> (\<lambda>i. columns df ! i) ` set (positions l (columns df))" by force
    with that show ?thesis unfolding d(2) by auto
  qed
  with 1 show ?thesis by blast
qed

lemma merge_loop_columns:
  assumes "merge_loop acc dfs = Inr m"
    and "\<forall>df\<in>set dfs. \<not> set (columns df) \<subseteq> set key_columns"
    and "\<forall>df\<in>set dfs. set (columns acc) \<inter> set (columns df) \<subseteq> set key_columns"
    and "labels_disjoint dfs"
  shows "set (columns m) = set (columns acc) \<union> (\<Union>df\<in>set dfs. set (columns df))"
  using assms
proof (induction dfs arbitrary: acc)
  case Nil
  then show ?case by simp
next
  case (Cons x xs)
  define rc where "rc = filter (\<lambda>col. col \<notin> set key_columns) (columns x)"
  from Cons.prems(2) have rc: "rc \<noteq> []" by (auto simp: rc_def filter_empty_conv)
  with Cons.prems(1) obtain sel acc' where
    sel: "df_getitem x (key_columns @ rc) = Inr sel"
    and mg: "pd_merge acc sel key_columns = Inr acc'"
    and rest: "merge_loop acc' xs = Inr m"
    by (auto simp: Let_def rc_def[symmetric] split: sum.splits)
  from df_getitem_InrD(1)[OF sel] have kx: "set key_columns \<subseteq> set (columns x)" by simp
  have ka: "set key_columns \<subseteq> set (columns acc)"
  proof
    fix k assume "k \<in> set key_columns"
    from check_key_unique[OF _ this, of "columns acc"] pd_merge_InrD[OF mg]
    obtain p where "positions k (columns acc) = [p]" by blast
    from positions_single(1,2)[OF this] show "k \<in> set (columns acc)" by (metis nth_mem)
  qed
  have vs: "set (columns sel) - set key_columns = set (columns x) - set key_columns"
    unfolding df_getitem_columns[OF sel] by (auto simp: rc_def)
  from Cons.prems(3) have "set (columns acc) \<inter> (set (columns sel) - set key_columns) = {}"
    unfolding vs by auto
  from pd_merge_columns_disjoint[OF mg this]
  have c': "set (columns acc') = set (columns acc) \<union> set (columns x)"
    unfolding vs using ka kx by auto
  have "set (columns m) = set (columns acc') \<union> (\<Union>df\<in>set xs. set (columns df))"
  proof (rule Cons.IH[OF rest])
    show "\<forall>df\<in>set xs. \<not> set (columns df) \<subseteq> set key_columns" using Cons.prems(2) by simp
    show "\<forall>df\<in>set xs. set (columns acc') \<inter> set (columns df) \<subseteq> set key_columns"
      using Cons.prems(3,4) unfolding c' by auto
    show "labels_disjoint xs" using Cons.prems(4) by simp
  qed
  then show ?case unfolding c' by auto
qed

lemma df_setitem_columns:
  "set (columns (df_setitem df label v)) = insert label (set (columns df))"
  by (auto simp: df_setitem_def)

lemma add_team_info_columns:
  "set (columns (add_team_info df team url loc)) =
     set (columns df) \<union> {''TEAM'', ''CITY_STATE'', ''STATS_URL''}"
  by (auto simp: add_team_info_def df_setitem_columns)

text \<open>
  C2, as the code has it: before a group is merged, every column label of every table of
  the group is trimmed and uppercased, and nothing else; the synonym table of
  \<open>_normalize_headers\<close> is not applied. When the merge succeeds and no label outside the
  join key occurs in two tables of the group, the labels of the merged table are the union
  of these trimmed, uppercased labels and the three labels of the team information.
\<close>

theorem group_headers_trimmed_uppercased:
  "(g \<in> set (table_groups tbls c) \<longrightarrow>
      (\<exists>df\<in>set tbls. determine_table_type (columns df) = Some c \<and>
         columns g = map (\<lambda>col. upper (strip col)) (columns df) \<and> rows g = rows df)) \<and>
   (merge_tables_by_type tbls team url loc = Inr merged \<longrightarrow> (c, m) \<in> set merged \<longrightarrow>
      labels_disjoint (table_groups tbls c) \<longrightarrow>
      set (columns m) =
        (\<Union>g\<in>set (table_groups tbls c). set (columns g)) \<union>
        {''TEAM'', ''CITY_STATE'', ''STATS_URL''})"
proof (intro conjI impI)
  assume "g \<in> set (table_groups tbls c)"
  then show "\<exists>df\<in>set tbls. determine_table_type (columns df) = Some c \<and>
         columns g = map (\<lambda>col. upper (strip col)) (columns df) \<and> rows g = rows df"
    by (auto simp: table_groups_def rename_columns_def)
next
  assume mt: "merge_tables_by_type tbls team url loc = Inr merged"
    and mem: "(c, m) \<in> set merged"
    and ld: "labels_disjoint (table_groups tbls c)"
  from merge_tables_by_type_mem[OF mt mem]
  have ne: "table_groups tbls c \<noteq> []"
    and mg: "merge_group (table_groups tbls c) team url loc = Inr m" by simp_all
  from ne obtain d dfs where g: "table_groups tbls c = d # dfs" by (cases "table_groups tbls c") auto
  from mg obtain acc where ml: "merge_loop d dfs = Inr acc"
    and m: "m = add_team_info acc team url loc"
    by (auto simp: merge_group_def g split: sum.splits)
  have vc: "\<forall>df\<in>set dfs. \<not> set (columns df) \<subseteq> set key_columns"
    using table_groups_value_column[of _ tbls c] g by simp
  from ld g have "\<forall>df\<in>set dfs. set (columns d) \<inter> set (columns df) \<subseteq> set key_columns"
    and "labels_disjoint dfs" by simp_all
  from merge_loop_columns[OF ml vc this]
  have "set (columns acc) = (\<Union>g\<in>set (d # dfs). set (columns g))" by simp
  then show "set (columns m) =
        (\<Union>g\<in>set (table_groups tbls c). set (columns g)) \<union>
        {''TEAM'', ''CITY_STATE'', ''STATS_URL''}"
    unfolding m g add_team_info_columns by simp
qed

theorem group_headers_trimmed_uppercased_witness:
  "(\<exists>df\<in>set [\<lparr>columns = [''#'', ''Athlete Name'', ''BA'', ''AB'', ''H''],
                rows = [[Some ''1'', Some ''Ann'', Some ''.300'', Some ''10'', Some ''3'']]\<rparr>,
               \<lparr>columns = [''#'', '' athlete name'', ''hr'', ''2B''],
                rows = [[Some ''2'', Some ''Bob'', Some ''1'', Some ''2'']]\<rparr>].
      determine_table_type (columns df) = Some Batting \<and>
      [''#'', ''ATHLETE NAME'', ''HR'', ''2B''] = map (\<lambda>col. upper (strip col)) (columns df) \<and>
      [[Some ''2'', Some ''Bob'', Some ''1'', Some ''2'']] = rows df) \<and>
   set [''#'', ''ATHLETE NAME'', ''BA'', ''AB'', ''H'', ''HR'', ''2B'',
        ''TEAM'', ''CITY_STATE'', ''STATS_URL''] =
     {''#'', ''ATHLETE NAME'', ''BA'', ''AB'', ''H''} \<union> {''#'', ''ATHLETE NAME'', ''HR'', ''2B''} \<union>
     {''TEAM'', ''CITY_STATE'', ''STATS_URL''}"
proof -
  let ?A = "\<lparr>columns = [''#'', ''Athlete Name'', ''BA'', ''AB'', ''H''],
       rows = [[Some ''1'', Some ''Ann'', Some ''.300'', Some ''10'', Some ''3'']]\<rparr>"
  let ?B = "\<lparr>columns = [''#'', '' athlete name'', ''hr'', ''2B''],
       rows = [[Some ''2'', Some ''Bob'', Some ''1'', Some ''2'']]\<rparr>"
  let ?A' = "\<lparr>columns = [''#'', ''ATHLETE NAME'', ''BA'', ''AB'', ''H''],
       rows = [[Some ''1'', Some ''Ann'', Some ''.300'', Some ''10'', Some ''3'']]\<rparr>"
  let ?B' = "\<lparr>columns = [''#'', ''ATHLETE NAME'', ''HR'', ''2B''],
       rows = [[Some ''2'', Some ''Bob'', Some ''1'', Some ''2'']]\<rparr>"
  let ?M = "\<lparr>columns = [''#'', ''ATHLETE NAME'', ''BA'', ''AB'', ''H'', ''HR'', ''2B'',
                     ''TEAM'', ''CITY_STATE'', ''STATS_URL''],
          rows = [[Some ''1'', Some ''Ann'', Some ''.300'', Some ''10'', Some ''3'', None, None,
                   Some ''Riders'', Some ''Dover, DE'', Some ''http://x/riders''],
                  [Some ''2'', Some ''Bob'', None, None, None, Some ''1'', Some ''2'',
                   Some ''Riders'', Some ''Dover, DE'', Some ''http://x/riders'']]\<rparr>"
  have tg: "table_groups [?A, ?B] Batting = [?A', ?B']" by code_simp
  have mt: "merge_tables_by_type [?A, ?B] ''Riders'' ''http://x/riders'' ''Dover, DE'' =
      Inr [(Batting, ?M)]" by code_simp
  have mem: "(Batting, ?M) \<in> set [(Batting, ?M)]" by simp
  have g: "?B' \<in> set (table_groups [?A, ?B] Batting)" unfolding tg by simp
  have ld: "labels_disjoint (table_groups [?A, ?B] Batting)"
    unfolding tg by (simp add: key_columns_def)
  note t = group_headers_trimmed_uppercased [of ?B' "[?A, ?B]" Batting "''Riders''"
      "''http://x/riders''" "''Dover, DE''" "[(Batting, ?M)]" ?M]
  from t g have 1: "\<exists>df\<in>set [?A, ?B]. determine_table_type (columns df) = Some Batting \<and>
      columns ?B' = map (\<lambda>col. upper (strip col)) (columns df) \<and> rows ?B' = rows df"
    by blast
  from t mt mem ld have 2: "set (columns ?M) =
        (\<Union>g\<in>set (table_groups [?A, ?B] Batting). set (columns g)) \<union>
        {''TEAM'', ''CITY_STATE'', ''STATS_URL''}" by blast
  from 1 2 show ?thesis unfolding tg by simp
qed

text \<open>
  The claim as stated fails: a table with the header \<open>BA\<close> is a batting table, the
  normalizer would turn \<open>BA\<close> into \<open>AVG\<close>, and the group and the merged table keep \<open>BA\<close>.
\<close>

theorem synonym_table_not_applied_counterexample:
  "table_groups
     [\<lparr>columns = [''#'', ''Athlete Name'', ''BA'', ''AB'', ''H''],
       rows = [[Some ''1'', Some ''Ann'', Some ''.300'', Some ''10'', Some ''3'']]\<rparr>] Batting =
     [\<lparr>columns = [''#'', ''ATHLETE NAME'', ''BA'', ''AB'', ''H''],
       rows = [[Some ''1'', Some ''Ann'', Some ''.300'', Some ''10'', Some ''3'']]\<rparr>] \<and>
   normalize_headers [''#'', ''Athlete Name'', ''BA'', ''AB'', ''H''] =
     [''#'', ''ATHLETE NAME'', ''AVG'', ''AB'', ''H''] \<and>
   [''#'', ''ATHLETE NAME'', ''BA'', ''AB'', ''H''] \<noteq>
     normalize_headers [''#'', ''Athlete Name'', ''BA'', ''AB'', ''H''] \<and>
   merge_tables_by_type
     [\<lparr>columns = [''#'', ''Athlete Name'', ''BA'', ''AB'', ''H''],
       rows = [[Some ''1'', Some ''Ann'', Some ''.300'', Some ''10'', Some ''3'']]\<rparr>]
     ''Riders'' ''http://x/riders'' ''Dover, DE'' =
   Inr [(Batting,
         \<lparr>columns = [''#'', ''ATHLETE NAME'', ''BA'', ''AB'', ''H'',
                     ''TEAM'', ''CITY_STATE'', ''STATS_URL''],
          rows = [[Some ''1'', Some ''Ann'', Some ''.300'', Some ''10'', Some ''3'',
                   Some ''Riders'', Some ''Dover, DE'', Some ''http://x/riders'']]\<rparr>)]"
proof -
  have n: "normalize_headers [''#'', ''Athlete Name'', ''BA'', ''AB'', ''H''] =
     [''#'', ''ATHLETE NAME'', ''AVG'', ''AB'', ''H'']" by code_simp
  have "table_groups
     [\<lparr>columns = [''#'', ''Athlete Name'', ''BA'', ''AB'', ''H''],
       rows = [[Some ''1'', Some ''Ann'', Some ''.300'', Some ''10'', Some ''3'']]\<rparr>] Batting =
     [\<lparr>columns = [''#'', ''ATHLETE NAME'', ''BA'', ''AB'', ''H''],
       rows = [[Some ''1'', Some ''Ann'', Some ''.300'', Some ''10'', Some ''3'']]\<rparr>]"
    by code_simp
  moreover have "merge_tables_by_type
     [\<lparr>columns = [''#'', ''Athlete Name'', ''BA'', ''AB'', ''H''],
       rows = [[Some ''1'', Some ''Ann'', Some ''.300'', Some ''10'', Some ''3'']]\<rparr>]
     ''Riders'' ''http://x/riders'' ''Dover, DE'' =
   Inr [(Batting,
         \<lparr>columns = [''#'', ''ATHLETE NAME'', ''BA'', ''AB'', ''H'',
                     ''TEAM'', ''CITY_STATE'', ''STATS_URL''],
          rows = [[Some ''1'', Some ''Ann'', Some ''.300'', Some ''10'', Some ''3'',
                   Some ''Riders'', Some ''Dover, DE'', Some ''http://x/riders'']]\<rparr>)]"
    by code_simp
  ultimately show ?thesis unfolding n by simp
qed

end
